theory Spec2Isabelle
  imports Complex_Main
begin

section \<open>Data model\<close>

text \<open>
  A cell of a pandas frame is a Python float. The model keeps the four kinds of value
  that the code can tell apart: a finite number, the two infinities, and NaN, which is
  the missing value of pandas (\<open>dropna\<close> removes NaN and nothing else). Finite
  arithmetic is done on the reals: rounding, overflow of finite results and the sign of
  zero are not modelled.
\<close>

datatype fval = Fin real | PInf | NInf | NaN

fun isna :: "fval \<Rightarrow> bool" where
  "isna NaN = True"
| "isna _ = False"

text \<open>Python's \<open>a > b\<close> on floats: every comparison with NaN is false.\<close>

fun fgt :: "fval \<Rightarrow> fval \<Rightarrow> bool" where
  "fgt NaN _ = False"
| "fgt _ NaN = False"
| "fgt (Fin a) (Fin b) = (a > b)"
| "fgt (Fin a) PInf = False"
| "fgt (Fin a) NInf = True"
| "fgt PInf PInf = False"
| "fgt PInf _ = True"
| "fgt NInf _ = False"

text \<open>
  numpy's float division \<open>a / b\<close>: a finite number over zero is an infinity of the
  sign of the numerator, zero over zero and infinity over infinity are NaN.
\<close>

fun fdiv :: "fval \<Rightarrow> fval \<Rightarrow> fval" where
  "fdiv NaN _ = NaN"
| "fdiv _ NaN = NaN"
| "fdiv (Fin a) (Fin b) =
     (if b \<noteq> 0 then Fin (a / b)
      else if a = 0 then NaN
      else if a > 0 then PInf else NInf)"
| "fdiv (Fin a) PInf = Fin 0"
| "fdiv (Fin a) NInf = Fin 0"
| "fdiv PInf (Fin b) = (if b \<ge> 0 then PInf else NInf)"
| "fdiv NInf (Fin b) = (if b \<ge> 0 then NInf else PInf)"
| "fdiv PInf _ = NaN"
| "fdiv NInf _ = NaN"

text \<open>\<open>a - c\<close> and \<open>a * c\<close> for a finite constant \<open>c\<close> (\<open>c > 0\<close> in the product).\<close>

fun fsub_const :: "fval \<Rightarrow> real \<Rightarrow> fval" where
  "fsub_const (Fin a) c = Fin (a - c)"
| "fsub_const v c = v"

fun fmul_const :: "fval \<Rightarrow> real \<Rightarrow> fval" where
  "fmul_const (Fin a) c = Fin (a * c)"
| "fmul_const v c = v"

text \<open>
  A date is the ordinal of a day. A frame (pandas \<open>DataFrame\<close>) is its row index and
  its columns in order, each column a name and one cell per row. A series is one column
  with its index: a list of (date, value) pairs.
\<close>

type_synonym date = nat

record frame =
  index :: "date list"
  columns :: "(string \<times> fval list) list"

definition nrows :: "frame \<Rightarrow> nat" where
  "nrows df = length (index df)"

definition column_names :: "frame \<Rightarrow> string list" where
  "column_names df = map fst (columns df)"

text \<open>
  Well-formed frames: column names are distinct and every column has one cell per row.
  pandas builds no other frame from the CSV files and downloads of this program.
\<close>

definition wf_frame :: "frame \<Rightarrow> bool" where
  "wf_frame df \<longleftrightarrow>
     distinct (column_names df) \<and>
     list_all (\<lambda>c. length (snd c) = nrows df) (columns df)"

text \<open>
  The PriceTable of the specification: the index is strictly increasing (hence free of
  duplicates), no cell is missing, and all prices are positive finite numbers.
\<close>

fun positive :: "fval \<Rightarrow> bool" where
  "positive (Fin a) = (a > 0)"
| "positive PInf = False"
| "positive NInf = False"
| "positive NaN = False"

definition no_missing :: "frame \<Rightarrow> bool" where
  "no_missing df \<longleftrightarrow> list_all (\<lambda>c. list_all (\<lambda>v. \<not> isna v) (snd c)) (columns df)"

definition valid_price_table :: "frame \<Rightarrow> bool" where
  "valid_price_table df \<longleftrightarrow>
     wf_frame df \<and> sorted_wrt (<) (index df) \<and> no_missing df \<and>
     list_all (\<lambda>c. list_all positive (snd c)) (columns df)"

datatype error = KeyError string | ValueError string | IndexError

section \<open>pandas operations used by the program\<close>

text \<open>
  \<open>Series.pct_change()\<close>: the first row has no previous row and is NaN, every other row
  is \<open>cur / prev - 1\<close>. (pandas before 3.0 forward-fills missing cells of the input
  first; on a column without missing cells that fill changes nothing, and the theorems
  about \<open>pct_change\<close> below are about such columns.)
\<close>

definition pct_cell :: "fval \<Rightarrow> fval \<Rightarrow> fval" where
  "pct_cell prev cur = fsub_const (fdiv cur prev) 1"

fun pct_change_series :: "fval list \<Rightarrow> fval list" where
  "pct_change_series [] = []"
| "pct_change_series (x # xs) = NaN # map2 pct_cell (butlast (x # xs)) xs"

definition pct_change :: "frame \<Rightarrow> frame" where
  "pct_change df = df\<lparr>columns := map (\<lambda>(n, v). (n, pct_change_series v)) (columns df)\<rparr>"

text \<open>
  \<open>DataFrame.dropna()\<close> keeps the rows in which no column is NaN. \<open>row_ok cols i\<close>
  tests row \<open>i\<close>; \<open>select_rows\<close> keeps the cells of a column at the kept positions.
\<close>

definition row_ok :: "(string \<times> fval list) list \<Rightarrow> nat \<Rightarrow> bool" where
  "row_ok cols i \<longleftrightarrow> list_all (\<lambda>c. \<not> isna (snd c ! i)) cols"

definition select_rows :: "(nat \<Rightarrow> bool) \<Rightarrow> 'a list \<Rightarrow> 'a list" where
  "select_rows keep xs = map snd (filter (\<lambda>p. keep (fst p)) (enumerate 0 xs))"

definition dropna :: "frame \<Rightarrow> frame" where
  "dropna df =
     \<lparr>index = select_rows (row_ok (columns df)) (index df),
      columns = map (\<lambda>(n, v). (n, select_rows (row_ok (columns df)) v)) (columns df)\<rparr>"

text \<open>\<open>df.columns = [f"{col}_change" for col in df.columns]\<close>\<close>

definition rename_change :: "frame \<Rightarrow> frame" where
  "rename_change df = df\<lparr>columns := map (\<lambda>(n, v). (n @ ''_change'', v)) (columns df)\<rparr>"

text \<open>
  \<open>a.intersection(b)\<close> on two indexes: the labels of \<open>a\<close> that occur in \<open>b\<close>, each
  once, in the order of \<open>a\<close>. \<open>s.loc[idx]\<close> on a series: for every label of \<open>idx\<close> the
  rows of \<open>s\<close> that carry it (the labels used below always come from an intersection
  with the index of \<open>s\<close>, so the KeyError for an unknown label cannot arise).
\<close>

definition index_intersection :: "date list \<Rightarrow> date list \<Rightarrow> date list" where
  "index_intersection a b = remdups (filter (\<lambda>d. d \<in> set b) a)"

definition loc :: "date list \<Rightarrow> (date \<times> 'a) list \<Rightarrow> (date \<times> 'a) list" where
  "loc idx s = concat (map (\<lambda>d. filter (\<lambda>r. fst r = d) s) idx)"

text \<open>The finite value of a cell, and the mean of a list of reals.\<close>

fun fin_val :: "fval \<Rightarrow> real option" where
  "fin_val (Fin a) = Some a"
| "fin_val _ = None"

definition mean :: "real list \<Rightarrow> real" where
  "mean xs = sum_list xs / real (length xs)"

text \<open>
  scikit-learn's \<open>StandardScaler\<close>, on the reals: \<open>fit\<close> keeps the mean and the
  population standard deviation of every column (a deviation of zero is replaced by
  one), \<open>transform\<close> maps \<open>x\<close> to \<open>(x - mean) / scale\<close> column by column.
\<close>

record scaler =
  sc_mean :: "real list"
  sc_scale :: "real list"

definition std_dev :: "real list \<Rightarrow> real" where
  "std_dev xs = sqrt (sum_list (map (\<lambda>x. (x - mean xs) * (x - mean xs)) xs) / real (length xs))"

definition fit :: "real list list \<Rightarrow> scaler" where
  "fit cols =
     \<lparr>sc_mean = map mean cols,
      sc_scale = map (\<lambda>c. if std_dev c = 0 then 1 else std_dev c) cols\<rparr>"

definition transform :: "scaler \<Rightarrow> real list \<Rightarrow> real list" where
  "transform sc row = map (\<lambda>(x, m, s). (x - m) / s) (zip row (zip (sc_mean sc) (sc_scale sc)))"

section \<open>Label derivation (\<open>prepare_data\<close>, \<open>prepare_training_data\<close>)\<close>

text \<open>
  Both functions build the label table with the same four lines:
  \<^verbatim>\<open>
  df_target = pd.DataFrame(index=df.index[:-1])
  df_target['BIST100_today'] = df['BIST100'][:-1].values
  df_target['BIST100_tomorrow'] = df['BIST100'][1:].values
  df_target['target'] = (df_target['BIST100_tomorrow'] > df_target['BIST100_today']).astype(int)
  \<close>
  \<open>make_target\<close> is the \<open>target\<close> column of \<open>df_target\<close> with its index; a frame
  without the column \<open>BIST100\<close> raises KeyError.
\<close>

definition label_of :: "fval \<Rightarrow> fval \<Rightarrow> int" where
  "label_of today tomorrow = (if fgt tomorrow today then 1 else 0)"

definition make_target :: "frame \<Rightarrow> error + (date \<times> int) list" where
  "make_target df =
     (case map_of (columns df) ''BIST100'' of
        None \<Rightarrow> Inl (KeyError ''BIST100'')
      | Some prices \<Rightarrow>
          Inr (zip (butlast (index df)) (map2 label_of (butlast prices) (tl prices))))"

section \<open>Lag augmentation (\<open>add_lag_features\<close>)\<close>

text \<open>
  Python's \<open>str\<close> of an integer, used by the f-string that names a lag column.
\<close>

definition digit_char :: "nat \<Rightarrow> char" where
  "digit_char d = ''0123456789'' ! d"

fun str_nat :: "nat \<Rightarrow> string" where
  "str_nat n = (if n < 10 then [digit_char n] else str_nat (n div 10) @ [digit_char (n mod 10)])"

declare str_nat.simps [simp del]

definition str_int :: "int \<Rightarrow> string" where
  "str_int i = (if i < 0 then CHR ''-'' # str_nat (nat (- i)) else str_nat (nat i))"

definition lag_col_name :: "string \<Rightarrow> int \<Rightarrow> string" where
  "lag_col_name col lag = col @ ''_lag'' @ str_int lag"

definition startswith :: "string \<Rightarrow> string \<Rightarrow> bool" where
  "startswith s p \<longleftrightarrow> take (length p) s = p"

text \<open>
  \<open>Series.shift(k)\<close> keeps the index and moves the values \<open>k\<close> rows down (up for a
  negative \<open>k\<close>); the rows left without a value are NaN.
\<close>

definition shift :: "int \<Rightarrow> fval list \<Rightarrow> fval list" where
  "shift k xs =
     (let n = length xs in
      if k \<ge> 0 then replicate (min (nat k) n) NaN @ take (n - nat k) xs
      else drop (nat (- k)) xs @ replicate (min (nat (- k)) n) NaN)"

text \<open>
  \<open>d[key] = value\<close> on a Python dict, and \<open>df[name] = values\<close> on the columns of a
  frame: an existing key keeps its position and gets the new value, a new key is
  appended.
\<close>

definition assign :: "'k \<Rightarrow> 'v \<Rightarrow> ('k \<times> 'v) list \<Rightarrow> ('k \<times> 'v) list" where
  "assign k v kvs =
     (if k \<in> set (map fst kvs) then map (\<lambda>p. if fst p = k then (k, v) else p) kvs
      else kvs @ [(k, v)])"

text \<open>
  \<^verbatim>\<open>
  def add_lag_features(df_pct, lag_days=[1, 10, 30]):
      df_with_lags = df_pct.copy()
      external_cols = [col for col in df_pct.columns if not col.startswith('BIST100')]
      for col in external_cols:
          for lag in lag_days:
              lag_col_name = f"{col}_lag{lag}"
              df_with_lags[lag_col_name] = df_pct[col].shift(lag)
      df_with_lags = df_with_lags.dropna()
      return df_with_lags
  \<close>
  The loops run over the columns of \<open>df_pct\<close> themselves (name and cells), which is
  what \<open>df_pct[col]\<close> reads when the column names are distinct.
\<close>

definition external_cols :: "frame \<Rightarrow> (string \<times> fval list) list" where
  "external_cols df_pct = filter (\<lambda>c. \<not> startswith (fst c) ''BIST100'') (columns df_pct)"

definition add_lags_col ::
  "int list \<Rightarrow> string \<times> fval list \<Rightarrow> (string \<times> fval list) list \<Rightarrow> (string \<times> fval list) list" where
  "add_lags_col lag_days col cols =
     fold (\<lambda>lag acc. assign (lag_col_name (fst col) lag) (shift lag (snd col)) acc) lag_days cols"

definition with_lags :: "frame \<Rightarrow> int list \<Rightarrow> (string \<times> fval list) list" where
  "with_lags df_pct lag_days = fold (add_lags_col lag_days) (external_cols df_pct) (columns df_pct)"

definition add_lag_features :: "frame \<Rightarrow> int list \<Rightarrow> frame" where
  "add_lag_features df_pct lag_days = dropna (df_pct\<lparr>columns := with_lags df_pct lag_days\<rparr>)"

text \<open>The change table of \<open>prepare_data\<close>: \<open>df.pct_change().dropna()\<close>, columns renamed.\<close>

definition change_table :: "frame \<Rightarrow> frame" where
  "change_table df = rename_change (dropna (pct_change df))"

section \<open>Data preparation (\<open>prepare_data\<close>, \<open>prepare_training_data\<close>)\<close>

text \<open>\<open>df.loc[idx]\<close> on a frame: the rows with the labels of \<open>idx\<close>, column by column.\<close>

definition loc_frame :: "date list \<Rightarrow> frame \<Rightarrow> frame" where
  "loc_frame idx df =
     \<lparr>index = map fst (loc idx (zip (index df) (index df))),
      columns = map (\<lambda>(n, v). (n, map snd (loc idx (zip (index df) v)))) (columns df)\<rparr>"

text \<open>
  \<^verbatim>\<open>
  df_pct = df.pct_change().dropna()
  df_pct.columns = [f"{col}_change" for col in df_pct.columns]
  if use_lags:
      df_pct = add_lag_features(df_pct, lag_days)
  df_target = ...
  clean_idx = df_pct.index.intersection(df_target.index)
  X_data = df_pct.loc[clean_idx]
  y_data = df_target.loc[clean_idx, 'target']
  \<close>
  \<open>prepare_xy\<close> is the pair \<open>(X_data, y_data)\<close>, \<open>y_data\<close> with its index.
\<close>

definition prepare_xy :: "frame \<Rightarrow> bool \<Rightarrow> int list \<Rightarrow> error + frame \<times> (date \<times> int) list" where
  "prepare_xy df use_lags lag_days =
     (let df_pct = change_table df;
          df_pct = (if use_lags then add_lag_features df_pct lag_days else df_pct)
      in case make_target df of
           Inl e \<Rightarrow> Inl e
         | Inr df_target \<Rightarrow>
             (let clean_idx = index_intersection (index df_pct) (map fst df_target)
              in Inr (loc_frame clean_idx df_pct, loc clean_idx df_target)))"

text \<open>
  \<open>scaler.fit_transform(X_data)\<close>: scikit-learn refuses a matrix with an infinite
  entry, with no row or with no column (ValueError); otherwise the scaler is fitted on
  the columns and applied to them.
\<close>

definition fit_transform :: "frame \<Rightarrow> error + scaler \<times> real list list" where
  "fit_transform X =
     (if \<not> list_all (\<lambda>c. list_all (\<lambda>v. fin_val v \<noteq> None) (snd c)) (columns X)
      then Inl (ValueError ''Input X contains infinity or a value too large'')
      else if nrows X = 0 then Inl (ValueError ''Found array with 0 sample(s)'')
      else if columns X = [] then Inl (ValueError ''Found array with 0 feature(s)'')
      else (let cols = map (\<lambda>c. List.map_filter fin_val (snd c)) (columns X);
                sc = fit cols
            in Inr (sc, map (\<lambda>i. transform sc (map (\<lambda>c. c ! i) cols)) [0..<nrows X])))"

text \<open>\<open>return X_scaled, y_data.values, scaler, X_data.columns.tolist()\<close>\<close>

definition prepare_data ::
  "frame \<Rightarrow> bool \<Rightarrow> int list \<Rightarrow> error + real list list \<times> int list \<times> scaler \<times> string list" where
  "prepare_data df use_lags lag_days =
     (case prepare_xy df use_lags lag_days of
        Inl e \<Rightarrow> Inl e
      | Inr (X_data, y_data) \<Rightarrow>
          (case fit_transform X_data of
             Inl e \<Rightarrow> Inl e
           | Inr (sc, X_scaled) \<Rightarrow> Inr (X_scaled, map snd y_data, sc, column_names X_data)))"

text \<open>
  \<open>data_collector.prepare_training_data\<close> runs the same steps without lag features and
  returns \<open>(X_data, y_data, X_scaled_df)\<close>; its scaler is a local variable and is not
  returned. (The fourth component, \<open>X_scaled_df\<close> with the \<open>target\<close> column appended, is
  the second and third put side by side.)
\<close>

definition prepare_training_data ::
  "frame \<Rightarrow> error + frame \<times> (date \<times> int) list \<times> real list list" where
  "prepare_training_data df =
     (case prepare_xy df False [] of
        Inl e \<Rightarrow> Inl e
      | Inr (X_data, y_data) \<Rightarrow>
          (case fit_transform X_data of
             Inl e \<Rightarrow> Inl e
           | Inr (sc, X_scaled) \<Rightarrow> Inr (X_data, y_data, X_scaled)))"

section \<open>Lag-correlation analysis (\<open>analyze_lag_importance\<close>)\<close>

text \<open>
  Pearson's coefficient of two value lists of the same length, on the reals: NaN when a
  value is not finite or when one of the two lists has no variance (which includes
  lists of fewer than two values), as \<open>numpy.corrcoef\<close> gives.
\<close>

definition pearson_real :: "real list \<Rightarrow> real list \<Rightarrow> fval" where
  "pearson_real xs ys =
     (let mx = mean xs; my = mean ys;
          sxx = sum_list (map (\<lambda>x. (x - mx) * (x - mx)) xs);
          syy = sum_list (map (\<lambda>y. (y - my) * (y - my)) ys);
          sxy = sum_list (map2 (\<lambda>x y. (x - mx) * (y - my)) xs ys)
      in if xs = [] \<or> sxx = 0 \<or> syy = 0 then NaN else Fin (sxy / sqrt (sxx * syy)))"

definition pearson :: "fval list \<Rightarrow> fval list \<Rightarrow> fval" where
  "pearson xs ys =
     (if list_all (\<lambda>v. fin_val v \<noteq> None) (xs @ ys)
      then pearson_real (List.map_filter fin_val xs) (List.map_filter fin_val ys)
      else NaN)"

text \<open>
  \<open>s.corr(t)\<close> on two series: the rows are paired by label (inner join), pairs with a
  NaN are left out, and an empty pairing gives NaN.
\<close>

definition corr :: "(date \<times> fval) list \<Rightarrow> (date \<times> fval) list \<Rightarrow> fval" where
  "corr s t =
     (let pairs = concat (map (\<lambda>r. map (\<lambda>q. (snd r, snd q)) (filter (\<lambda>q. fst q = fst r) t)) s);
          valid = filter (\<lambda>p. \<not> isna (fst p) \<and> \<not> isna (snd p)) pairs
      in if valid = [] then NaN else pearson (map fst valid) (map snd valid))"

record lag_corr =
  variable :: string
  lag_days :: int
  correlation :: fval

text \<open>
  \<^verbatim>\<open>
  lagged_series = df_pct[col].shift(lag)
  valid_idx = lagged_series.dropna().index.intersection(target.index)
  \<close>
  The index of \<open>target\<close> is the index of \<open>df_pct\<close>.
\<close>

definition lagged_series :: "frame \<Rightarrow> fval list \<Rightarrow> int \<Rightarrow> (date \<times> fval) list" where
  "lagged_series df_pct vals lag = zip (index df_pct) (shift lag vals)"

definition valid_idx :: "frame \<Rightarrow> fval list \<Rightarrow> int \<Rightarrow> date list" where
  "valid_idx df_pct vals lag =
     index_intersection
       (map fst (filter (\<lambda>r. \<not> isna (snd r)) (lagged_series df_pct vals lag)))
       (index df_pct)"

text \<open>
  The body of the inner loop: what one (column, lag) pair appends to \<open>lag_corrs\<close>.
\<close>

definition lag_step ::
  "frame \<Rightarrow> (date \<times> fval) list \<Rightarrow> string \<times> fval list \<Rightarrow> int \<Rightarrow> lag_corr list \<Rightarrow> lag_corr list" where
  "lag_step df_pct target col lag lag_corrs =
     (let vi = valid_idx df_pct (snd col) lag in
      if length vi > 0
      then lag_corrs @
           [\<lparr>variable = fst col, lag_days = lag,
             correlation = corr (loc vi target) (loc vi (lagged_series df_pct (snd col) lag))\<rparr>]
      else lag_corrs)"

definition max_lag :: int where
  "max_lag = 30"

definition other_cols :: "frame \<Rightarrow> string \<Rightarrow> (string \<times> fval list) list" where
  "other_cols df_pct target_col = filter (\<lambda>c. fst c \<noteq> target_col) (columns df_pct)"

definition lag_records :: "frame \<Rightarrow> (date \<times> fval) list \<Rightarrow> string \<Rightarrow> lag_corr list" where
  "lag_records df_pct target target_col =
     fold (\<lambda>col acc. fold (lag_step df_pct target col) [1..max_lag] acc)
       (other_cols df_pct target_col) []"

text \<open>
  \<open>pd.DataFrame(lag_corrs).pivot(index='variable', columns='lag_days',
  values='correlation')\<close>. A frame made from the empty list has no columns, so the pivot
  raises KeyError on its first column lookup; two records for the same cell raise
  ValueError. The pivot is given by its cells: the correlation at (variable, lag).
\<close>

definition pivot :: "lag_corr list \<Rightarrow> error + (string \<times> int \<rightharpoonup> fval)" where
  "pivot recs =
     (if recs = [] then Inl (KeyError ''variable'')
      else if \<not> distinct (map (\<lambda>r. (variable r, lag_days r)) recs)
      then Inl (ValueError ''Index contains duplicate entries, cannot reshape'')
      else Inr (map_of (map (\<lambda>r. ((variable r, lag_days r), correlation r)) recs)))"

definition analyze_lag_importance ::
  "frame \<Rightarrow> string \<Rightarrow> error + lag_corr list \<times> (string \<times> int \<rightharpoonup> fval)" where
  "analyze_lag_importance df target_col =
     (let df_pct = dropna (pct_change df) in
      case map_of (columns df_pct) target_col of
        None \<Rightarrow> Inl (KeyError target_col)
      | Some tvals \<Rightarrow>
          (let target = zip (index df_pct) tvals;
               lag_corr_df = lag_records df_pct target target_col
           in case pivot lag_corr_df of
                Inl e \<Rightarrow> Inl e
              | Inr lag_corr_pivot \<Rightarrow> Inr (lag_corr_df, lag_corr_pivot)))"

section \<open>Model selection and persistence (\<open>model.py\<close>, \<open>model_trainer.py\<close>)\<close>

record params =
  n_estimators :: nat
  learning_rate :: real
  max_depth :: nat

definition param_combinations :: "params list" where
  "param_combinations =
     [\<lparr>n_estimators = 100, learning_rate = 1 / 10, max_depth = 3\<rparr>,
      \<lparr>n_estimators = 200, learning_rate = 5 / 100, max_depth = 5\<rparr>,
      \<lparr>n_estimators = 100, learning_rate = 1 / 10, max_depth = 6\<rparr>,
      \<lparr>n_estimators = 150, learning_rate = 5 / 100, max_depth = 4\<rparr>,
      \<lparr>n_estimators = 100, learning_rate = 1 / 100, max_depth = 7\<rparr>]"

text \<open>
  Training and evaluation are calls into xgboost and scikit-learn with fixed seeds. They
  enter the model as two functions of the loaded data set: \<open>train d p\<close> is the
  classifier fitted on the training split of \<open>d\<close> with parameters \<open>p\<close>, and
  \<open>accuracy d m\<close> is its accuracy on the held-out split. The library calls are taken
  to return: an exception inside xgboost or scikit-learn is not modelled.

  The four variables that the loop of \<open>train_with_different_params\<close> updates:
\<close>

record 'm best =
  best_accuracy :: real
  best_params :: "params option"
  best_model :: "'m option"

definition no_best :: "'m best" where
  "no_best = \<lparr>best_accuracy = 0, best_params = None, best_model = None\<rparr>"

text \<open>
  \<^verbatim>\<open>
  for i, params in enumerate(param_combinations):
      model = train_model(X_train, y_train, ...)
      results = evaluate_model(model, X_test, y_test, feature_names)
      accuracy = results['accuracy']
      if accuracy > best_accuracy:
          best_accuracy = accuracy
          best_params = params
          best_model = model
          best_results = results
  \<close>
\<close>

definition select_step :: "(params \<Rightarrow> 'm) \<Rightarrow> ('m \<Rightarrow> real) \<Rightarrow> params \<Rightarrow> 'm best \<Rightarrow> 'm best" where
  "select_step train_model evaluate p b =
     (let model = train_model p; accuracy = evaluate model in
      if accuracy > best_accuracy b
      then \<lparr>best_accuracy = accuracy, best_params = Some p, best_model = Some model\<rparr>
      else b)"

definition select_best :: "(params \<Rightarrow> 'm) \<Rightarrow> ('m \<Rightarrow> real) \<Rightarrow> params list \<Rightarrow> 'm best" where
  "select_best train_model evaluate ps = fold (select_step train_model evaluate) ps no_best"

text \<open>
  What the program leaves behind: the model file \<open>models/bist_model.pkl\<close> written by
  \<open>train_with_different_params\<close>, the model file \<open>models/current_model.pkl\<close> written by
  \<open>train_and_evaluate_model\<close>, and the closing line of the printed report.
\<close>

datatype report = MetCriterion | SavedBelowCriterion | NoModelTrained

record 'm store =
  bist_model_file :: "'m option"
  current_model_file :: "'m option"
  printed :: "report list"

definition save_model :: "'m \<Rightarrow> 'm store \<Rightarrow> 'm store" where
  "save_model m st = st\<lparr>bist_model_file := Some m\<rparr>"

text \<open>
  \<^verbatim>\<open>
  if best_model is not None and verbose:
      ...
      save_model(best_model, model_path)
      ...
      success = best_accuracy > 0.55
      if success:
          print("\nModel ... karsiladi ve kaydedildi!")
      else:
          print("\nModel kaydedildi, ancak ... karsilamadi.")
  elif verbose:
      print("Hicbir model egitilemedi.")
  return best_model, best_params, best_accuracy, best_results
  \<close>
  A data file that cannot be read (\<open>None\<close>) returns \<open>(None, None, 0, None)\<close> before
  anything is trained.
\<close>

definition train_with_different_params ::
  "'d option \<Rightarrow> ('d \<Rightarrow> params \<Rightarrow> 'm) \<Rightarrow> ('d \<Rightarrow> 'm \<Rightarrow> real) \<Rightarrow> bool \<Rightarrow> 'm store \<Rightarrow> 'm best \<times> 'm store" where
  "train_with_different_params data_file train accuracy verbose st =
     (case data_file of
        None \<Rightarrow> (no_best, st)
      | Some d \<Rightarrow>
          (let b = select_best (train d) (accuracy d) param_combinations in
           case best_model b of
             Some m \<Rightarrow>
               if verbose
               then (b, (save_model m st)
                          \<lparr>printed := printed st @
                             [if best_accuracy b > 55 / 100 then MetCriterion
                              else SavedBelowCriterion]\<rparr>)
               else (b, st)
           | None \<Rightarrow>
               if verbose then (b, st\<lparr>printed := printed st @ [NoModelTrained]\<rparr>)
               else (b, st)))"

text \<open>
  \<open>model_trainer.py\<close>: one model with the default parameters, saved before the success
  criterion is looked at.
  \<^verbatim>\<open>
  model = train_model(X_train, y_train, n_estimators, random_state, model_type)
  results = evaluate_model(model, X_test, y_test, feature_names)
  ...
  save_model(model, model_path)
  ...
  success = check_success_criteria(results)
  return model, results, cv_results, model_path, metadata_path, success
  \<close>
\<close>

definition check_success_criteria :: "real \<Rightarrow> real \<Rightarrow> bool" where
  "check_success_criteria accuracy threshold \<longleftrightarrow> accuracy > threshold"

definition train_and_evaluate_model ::
  "'d option \<Rightarrow> ('d \<Rightarrow> nat \<Rightarrow> 'm) \<Rightarrow> ('d \<Rightarrow> 'm \<Rightarrow> real) \<Rightarrow> nat \<Rightarrow> 'm store \<Rightarrow>
     ('m \<times> real \<times> bool) option \<times> 'm store" where
  "train_and_evaluate_model data_file train accuracy n st =
     (case data_file of
        None \<Rightarrow> (None, st)
      | Some d \<Rightarrow>
          (let model = train d n;
               acc = accuracy d model;
               st' = st\<lparr>current_model_file := Some model\<rparr>;
               success = check_success_criteria acc (55 / 100)
           in (Some (model, acc, success), st')))"

section \<open>Prediction serving (\<open>app.py\<close>, tab 2)\<close>

text \<open>
  \<^verbatim>\<open>
  last_5_days = raw_data.tail(5)
  daily_change = last_5_days.pct_change() * 100
  daily_change = daily_change.iloc[1:].copy()
  \<close>
\<close>

definition tail :: "nat \<Rightarrow> frame \<Rightarrow> frame" where
  "tail k df =
     \<lparr>index = drop (nrows df - k) (index df),
      columns = map (\<lambda>(n, v). (n, drop (length v - k) v)) (columns df)\<rparr>"

definition daily_change :: "frame \<Rightarrow> frame" where
  "daily_change raw_data =
     (let last_5_days = tail 5 raw_data;
          pct = pct_change last_5_days
      in \<lparr>index = tl (index pct),
          columns = map (\<lambda>(n, v). (n, tl (map (\<lambda>x. fmul_const x 100) v))) (columns pct)\<rparr>)"

text \<open>
  The four metric tiles read \<open>daily_change[c].iloc[-1]\<close> for the columns BIST100, Gold,
  Oil and USDTRY, in this order: KeyError for a missing column, IndexError when
  \<open>daily_change\<close> has no row.
\<close>

fun metric_tiles :: "frame \<Rightarrow> string list \<Rightarrow> error + unit" where
  "metric_tiles dc [] = Inr ()"
| "metric_tiles dc (c # cs) =
     (case map_of (columns dc) c of
        None \<Rightarrow> Inl (KeyError c)
      | Some v \<Rightarrow> if v = [] then Inl IndexError else metric_tiles dc cs)"

text \<open>\<open>all_change_features = daily_change.iloc[-1:]\<close>: the last row, as (name, value) pairs.\<close>

definition last_row :: "frame \<Rightarrow> (string \<times> fval) list" where
  "last_row dc = concat (map (\<lambda>(n, v). if v = [] then [] else [(n, last v)]) (columns dc))"

text \<open>
  \<^verbatim>\<open>
  if model_features:
      all_change_features = daily_change.iloc[-1:].copy()
      if all(feat in all_change_features.columns for feat in model_features):
          features = all_change_features[model_features].values.reshape(1, -1)
      else:
          features = np.zeros((1, len(model_features)))
          for i, feat in enumerate(model_features):
              if feat in all_change_features.columns:
                  features[0, i] = all_change_features[feat].values[0]
  else:
      features = daily_change.iloc[-1:].values.reshape(1, -1)
  \<close>
  \<open>model_features\<close> is \<open>None\<close> when there is no metadata file or no list in it; Python
  takes the \<open>else\<close> branch for \<open>None\<close> and for the empty list alike. \<open>row\<close> is the one
  row of \<open>all_change_features\<close>.
\<close>

definition zero_filled :: "string list \<Rightarrow> (string \<times> fval) list \<Rightarrow> fval list" where
  "zero_filled model_features row =
     fold (\<lambda>(i, feat) features.
             case map_of row feat of Some v \<Rightarrow> features[i := v] | None \<Rightarrow> features)
       (enumerate 0 model_features) (replicate (length model_features) (Fin 0))"

definition serving_features :: "string list option \<Rightarrow> (string \<times> fval) list \<Rightarrow> fval list" where
  "serving_features model_features row =
     (case model_features of
        None \<Rightarrow> map snd row
      | Some feats \<Rightarrow>
          if feats = [] then map snd row
          else if list_all (\<lambda>feat. feat \<in> set (map fst row)) feats
          then List.map_filter (map_of row) feats
          else zero_filled feats row)"

text \<open>
  The input of \<open>model.predict\<close> in tab 2: the tiles are drawn first, then the feature
  vector is built from the last row of \<open>daily_change\<close> and handed to the model as it is.
\<close>

definition prediction_input :: "frame \<Rightarrow> string list option \<Rightarrow> error + fval list" where
  "prediction_input raw_data model_features =
     (let dc = daily_change raw_data in
      case metric_tiles dc [''BIST100'', ''Gold'', ''Oil'', ''USDTRY''] of
        Inl e \<Rightarrow> Inl e
      | Inr _ \<Rightarrow> Inr (serving_features model_features (last_row dc)))"

section \<open>Data acquisition (\<open>download_data\<close>, \<open>get_data\<close>)\<close>

definition get_symbols :: "(string \<times> string) list" where
  "get_symbols =
     [(''BIST100'', ''XU100.IS''), (''Gold'', ''GC=F''), (''Oil'', ''CL=F''),
      (''USDTRY'', ''USDTRY=X''), (''US10Y'', ''^TNX''), (''NatGas'', ''NG=F''),
      (''VIX'', ''^VIX'')]"

text \<open>
  The provider is a function of the ticker: \<open>None\<close> when \<open>yf.download\<close> raises, the
  downloaded frame otherwise (date range and options are fixed during one call).
  \<^verbatim>\<open>
  data_frames = {}
  for name, symbol in symbols.items():
      try:
          ticker_data = yf.download(symbol, ...)
          if not ticker_data.empty:
              data_frames[name] = ticker_data['Close']
      except Exception as e:
          pass
  \<close>
  A frame without a \<open>Close\<close> column raises KeyError inside the \<open>try\<close>, which skips the
  symbol like any other exception.
\<close>

definition is_empty :: "frame \<Rightarrow> bool" where
  "is_empty df \<longleftrightarrow> index df = [] \<or> columns df = []"

definition fetch_step ::
  "(string \<Rightarrow> frame option) \<Rightarrow> string \<times> string \<Rightarrow> (string \<times> (date \<times> fval) list) list \<Rightarrow>
     (string \<times> (date \<times> fval) list) list" where
  "fetch_step yf_download entry data_frames =
     (case yf_download (snd entry) of
        None \<Rightarrow> data_frames
      | Some ticker_data \<Rightarrow>
          if \<not> is_empty ticker_data
          then (case map_of (columns ticker_data) ''Close'' of
                  None \<Rightarrow> data_frames
                | Some v \<Rightarrow> assign (fst entry) (zip (index ticker_data) v) data_frames)
          else data_frames)"

definition fetch_all ::
  "(string \<Rightarrow> frame option) \<Rightarrow> (string \<times> string) list \<Rightarrow> (string \<times> (date \<times> fval) list) list" where
  "fetch_all yf_download symbols = fold (fetch_step yf_download) symbols []"

text \<open>
  \<^verbatim>\<open>
  df = pd.DataFrame()
  for name, series in data_frames.items():
      df[name] = series
  \<close>
  The first series gives the frame its index; every later series is aligned to that
  index, NaN where it has no value for a date.
\<close>

definition set_series :: "string \<Rightarrow> (date \<times> fval) list \<Rightarrow> frame \<Rightarrow> frame" where
  "set_series name s df =
     (if index df = [] \<and> s \<noteq> []
      then \<lparr>index = map fst s,
            columns = assign name (map snd s)
                        (map (\<lambda>(n, v). (n, replicate (length s) NaN)) (columns df))\<rparr>
      else df\<lparr>columns :=
                assign name
                  (map (\<lambda>d. case map_of s d of Some v \<Rightarrow> v | None \<Rightarrow> NaN) (index df))
                  (columns df)\<rparr>)"

definition merge_frames :: "(string \<times> (date \<times> fval) list) list \<Rightarrow> frame" where
  "merge_frames data_frames =
     fold (\<lambda>(name, series) df. set_series name series df) data_frames \<lparr>index = [], columns = []\<rparr>"

text \<open>
  \<^verbatim>\<open>
  if df.isna().any().any():
      df = df.ffill()
      df = df.bfill()
  \<close>
\<close>

fun ffill_from :: "fval \<Rightarrow> fval list \<Rightarrow> fval list" where
  "ffill_from prev [] = []"
| "ffill_from prev (x # xs) = (if isna x then prev # ffill_from prev xs else x # ffill_from x xs)"

definition ffill :: "fval list \<Rightarrow> fval list" where
  "ffill v = ffill_from NaN v"

definition bfill :: "fval list \<Rightarrow> fval list" where
  "bfill v = rev (ffill_from NaN (rev v))"

definition fill_gaps :: "frame \<Rightarrow> frame" where
  "fill_gaps df =
     (if list_ex (\<lambda>c. list_ex isna (snd c)) (columns df)
      then df\<lparr>columns := map (\<lambda>(n, v). (n, bfill (ffill v))) (columns df)\<rparr>
      else df)"

text \<open>
  \<open>download_data\<close> returns \<open>None\<close> when no symbol was retrieved
  (\<open>if len(data_frames) == 0: return None\<close>). \<open>symbols=None\<close> stands for the registry.
\<close>

definition download_data ::
  "(string \<Rightarrow> frame option) \<Rightarrow> (string \<times> string) list option \<Rightarrow> frame option" where
  "download_data yf_download symbols =
     (let symbols = (case symbols of None \<Rightarrow> get_symbols | Some s \<Rightarrow> s);
          data_frames = fetch_all yf_download symbols
      in if length data_frames = 0 then None
         else Some (fill_gaps (merge_frames data_frames)))"

text \<open>
  The handler of \<open>get_data\<close> that runs when the cached file is absent and
  \<open>collect_data\<close> has failed (lines 70 to 120): it calls \<open>download_data\<close>, saves and
  returns its frame, and when that gives \<open>None\<close> it downloads every symbol itself,
  builds the frame from whatever arrived, writes it to the cache file and returns it.
  \<open>yf1\<close> and \<open>yf2\<close> are the provider's answers during the first and the second round
  of requests. The result is the returned frame and the content of the cache file.
\<close>

definition get_data_fallback ::
  "(string \<Rightarrow> frame option) \<Rightarrow> (string \<Rightarrow> frame option) \<Rightarrow> frame \<times> frame" where
  "get_data_fallback yf1 yf2 =
     (let symbols = get_symbols in
      case download_data yf1 (Some symbols) of
        Some df \<Rightarrow> (df, df)
      | None \<Rightarrow>
          (let data_frames = fetch_all yf2 symbols;
               df = fill_gaps (merge_frames data_frames)
           in (df, df)))"

section \<open>Auxiliary notions of the proofs\<close>

text \<open>
  Reading a decimal numeral back, the inverse of \<open>str_nat\<close>.
\<close>

definition digit_val :: "char \<Rightarrow> nat" where
  "digit_val c = of_char c - 48"

definition read_nat :: "string \<Rightarrow> nat" where
  "read_nat s = foldl (\<lambda>a c. 10 * a + digit_val c) 0 s"

text \<open>
  \<open>na_below k v\<close>: the cells of \<open>v\<close> that are NaN are exactly those of the first \<open>k\<close>
  rows, which is what a shift by \<open>k\<close> makes of a column without NaN.
\<close>

definition na_below :: "int \<Rightarrow> fval list \<Rightarrow> bool" where
  "na_below k v \<longleftrightarrow> (\<forall>i < length v. isna (v ! i) \<longleftrightarrow> int i < k)"

text \<open>
  The assignments that the two loops of \<open>add_lag_features\<close> perform, in their order.
\<close>

definition lag_ops :: "frame \<Rightarrow> int list \<Rightarrow> (string \<times> fval list) list" where
  "lag_ops df_pct lags =
     concat (map (\<lambda>col. map (\<lambda>lag. (lag_col_name (fst col) lag, shift lag (snd col))) lags)
       (external_cols df_pct))"

text \<open>
  The record that the loop body of \<open>analyze_lag_importance\<close> appends for a column and a
  lag, and the list of records in the words of the specification: for every column other
  than the target, in column order, and every lag from 1 to 30, in ascending order, one
  record when the valid dates of the shifted column meet the dates of the target, none
  otherwise.
\<close>

definition emit_record ::
  "frame \<Rightarrow> (date \<times> fval) list \<Rightarrow> string \<times> fval list \<Rightarrow> int \<Rightarrow> lag_corr" where
  "emit_record df_pct target col lag =
     \<lparr>variable = fst col, lag_days = lag,
      correlation =
        corr (loc (valid_idx df_pct (snd col) lag) target)
             (loc (valid_idx df_pct (snd col) lag) (lagged_series df_pct (snd col) lag))\<rparr>"

definition lag_records_spec :: "frame \<Rightarrow> (date \<times> fval) list \<Rightarrow> string \<Rightarrow> lag_corr list" where
  "lag_records_spec df_pct target target_col =
     [emit_record df_pct target col lag.
        col \<leftarrow> columns df_pct, fst col \<noteq> target_col,
        lag \<leftarrow> [1..30], valid_idx df_pct (snd col) lag \<noteq> []]"

text \<open>
  The value that the specification gives a stored feature name: the value of the change
  row under that name, and zero when the row has no such name.
\<close>

definition zero_fill :: "(string \<times> fval) list \<Rightarrow> string \<Rightarrow> fval" where
  "zero_fill row feat = (case map_of row feat of Some v \<Rightarrow> v | None \<Rightarrow> Fin 0)"

text \<open>The change between two prices in percent, as \<open>pct_change() * 100\<close> computes it.\<close>

definition pct_points :: "fval \<Rightarrow> fval \<Rightarrow> fval" where
  "pct_points prev cur = fmul_const (pct_cell prev cur) 100"

text \<open>
  A symbol is retrieved when the provider answers without an exception, the answer is
  not empty and has a \<open>Close\<close> column.
\<close>

definition retrieved :: "(string \<Rightarrow> frame option) \<Rightarrow> string \<times> string \<Rightarrow> bool" where
  "retrieved yf_download entry \<longleftrightarrow>
     (case yf_download (snd entry) of
        None \<Rightarrow> False
      | Some ticker_data \<Rightarrow> \<not> is_empty ticker_data \<and> map_of (columns ticker_data) ''Close'' \<noteq> None)"

text \<open>
  What the specification asks the serving path to hand to the model: the change row of
  the latest day, computed as at preparation time (the last row of the change table),
  standardized with the scaler that was fitted at preparation time.
\<close>

definition standardized_serving :: "scaler \<Rightarrow> frame \<Rightarrow> fval list" where
  "standardized_serving sc raw_data =
     map Fin (transform sc (List.map_filter fin_val (map snd (last_row (change_table raw_data)))))"

section \<open>Example inputs\<close>

text \<open>A price table of four days with the index series and one commodity.\<close>

definition example_prices :: frame where
  "example_prices =
     \<lparr>index = [1, 2, 3, 4],
      columns = [(''BIST100'', [Fin 100, Fin 110, Fin 99, Fin 120]),
                 (''Gold'', [Fin 10, Fin 20, Fin 10, Fin 5])]\<rparr>"

text \<open>A price table with the target column and no row.\<close>

definition empty_prices :: frame where
  "empty_prices = \<lparr>index = [], columns = [(''BIST100'', [])]\<rparr>"

text \<open>
  Two change tables of three days: one that has only the target column, one with the
  target and one commodity.
\<close>

definition target_only_changes :: frame where
  "target_only_changes =
     \<lparr>index = [2, 3, 4], columns = [(''BIST100_change'', [Fin (1 / 10), Fin (- 1 / 10), Fin (7 / 33)])]\<rparr>"

definition example_changes :: frame where
  "example_changes =
     \<lparr>index = [2, 3, 4],
      columns = [(''BIST100_change'', [Fin (1 / 10), Fin (- 1 / 10), Fin (7 / 33)]),
                 (''Gold_change'', [Fin 1, Fin (- 1 / 2), Fin (- 1 / 2)])]\<rparr>"

text \<open>Price tables of three days, with and without a commodity beside the target.\<close>

definition two_day_prices :: frame where
  "two_day_prices =
     \<lparr>index = [1, 2, 3],
      columns = [(''BIST100'', [Fin 100, Fin 110, Fin 99]),
                 (''Gold'', [Fin 10, Fin 20, Fin 10])]\<rparr>"

definition target_only_prices :: frame where
  "target_only_prices =
     \<lparr>index = [1, 2, 3], columns = [(''BIST100'', [Fin 100, Fin 110, Fin 99])]\<rparr>"

text \<open>
  Trainers and accuracies for the model selector: the trained model is the parameter set
  itself; the accuracy is 0 for every candidate, 1/2 for every candidate, or 6/10 for the
  second and the fourth candidate and 1/2 for the others.
\<close>

definition identity_trainer :: "unit \<Rightarrow> params \<Rightarrow> params" where
  "identity_trainer d p = p"

definition zero_accuracy :: "unit \<Rightarrow> params \<Rightarrow> real" where
  "zero_accuracy d m = 0"

definition half_accuracy :: "unit \<Rightarrow> params \<Rightarrow> real" where
  "half_accuracy d m = 1 / 2"

definition tied_accuracy :: "unit \<Rightarrow> params \<Rightarrow> real" where
  "tied_accuracy d m = (if max_depth m = 5 \<or> max_depth m = 4 then 6 / 10 else 1 / 2)"

definition empty_store :: "params store" where
  "empty_store = \<lparr>bist_model_file = None, current_model_file = None, printed = []\<rparr>"

text \<open>
  A change row that has only \<open>Gold_change\<close>, and a price table with the four columns of
  the metric tiles.
\<close>

definition gold_only_row :: "(string \<times> fval) list" where
  "gold_only_row = [(''Gold_change'', Fin (3 / 2))]"

definition serving_prices :: frame where
  "serving_prices =
     \<lparr>index = [1, 2, 3],
      columns = [(''BIST100'', [Fin 100, Fin 110, Fin 99]),
                 (''Gold'', [Fin 10, Fin 20, Fin 10]),
                 (''Oil'', [Fin 50, Fin 50, Fin 55]),
                 (''USDTRY'', [Fin 30, Fin 31, Fin 31])]\<rparr>"

text \<open>
  A provider that has data for gold and oil, an empty frame for natural gas, a frame
  without \<open>Close\<close> for the volatility index and an exception for everything else; and a
  provider that raises for every ticker.
\<close>

definition example_provider :: "string \<Rightarrow> frame option" where
  "example_provider s =
     (if s = ''GC=F''
      then Some \<lparr>index = [1, 2, 3],
                 columns = [(''Open'', [Fin 1, Fin 2, Fin 3]), (''Close'', [Fin 1, NaN, Fin 3])]\<rparr>
      else if s = ''CL=F''
      then Some \<lparr>index = [2, 3, 4], columns = [(''Close'', [Fin 1, Fin 2, Fin 3])]\<rparr>
      else if s = ''NG=F''
      then Some \<lparr>index = [], columns = [(''Close'', [])]\<rparr>
      else if s = ''^VIX''
      then Some \<lparr>index = [1], columns = [(''Open'', [Fin 1])]\<rparr>
      else None)"

definition failing_provider :: "string \<Rightarrow> frame option" where
  "failing_provider s = None"

text \<open>
  A price table of four days with the four columns of the metric tiles, and the feature
  table \<open>X_data\<close> that data preparation derives from it.
\<close>

definition pipeline_prices :: frame where
  "pipeline_prices =
     \<lparr>index = [1, 2, 3, 4],
      columns = [(''BIST100'', [Fin 100, Fin 110, Fin 99, Fin 198]),
                 (''Gold'', [Fin 10, Fin 20, Fin 10, Fin 5]),
                 (''Oil'', [Fin 50, Fin 50, Fin 55, Fin 55]),
                 (''USDTRY'', [Fin 30, Fin 30, Fin 30, Fin 33])]\<rparr>"

definition pipeline_X :: frame where
  "pipeline_X =
     \<lparr>index = [2, 3],
      columns = [(''BIST100_change'', [Fin (1 / 10), Fin (- (1 / 10))]),
                 (''Gold_change'', [Fin 1, Fin (- (1 / 2))]),
                 (''Oil_change'', [Fin 0, Fin (1 / 10)]),
                 (''USDTRY_change'', [Fin 0, Fin 0])]\<rparr>"

section \<open>Properties of the label series\<close>

lemma sorted_wrt_less_distinct: "sorted_wrt (<) (xs :: nat list) \<Longrightarrow> distinct xs"
  by (induction xs) auto

lemma set_loc_subset: "set (loc idx s) \<subseteq> set s"
  by (auto simp: loc_def)

lemma column_length:
  "wf_frame df \<Longrightarrow> map_of (columns df) c = Some v \<Longrightarrow> length v = nrows df"
  by (auto simp: wf_frame_def list_all_iff dest!: map_of_SomeD)

text \<open>
  Claim C1. For a price table with at least two rows, a strictly increasing index and
  the target column BIST100, the label table built by data preparation has exactly the
  dates of the table without the last one; the label at the date of row \<open>i\<close> is 1 when
  the target price of row \<open>i + 1\<close> exceeds that of row \<open>i\<close> and 0 otherwise; the last
  date has no label; and the labels \<open>y_data\<close> that \<open>prepare_data\<close> (with or without lag
  features) and \<open>prepare_training_data\<close> keep are entries of that label table.
\<close>

theorem label_series_correct:
  assumes wf: "wf_frame df"
    and srt: "sorted_wrt (<) (index df)"
    and col: "map_of (columns df) ''BIST100'' = Some prices"
    and two: "2 \<le> nrows df"
  shows "\<exists>labels X_data y_data.
           make_target df = Inr labels \<and>
           prepare_xy df use_lags lags = Inr (X_data, y_data) \<and>
           map fst labels = butlast (index df) \<and>
           (\<forall>i. i + 1 < nrows df \<longrightarrow>
              map_of labels (index df ! i) =
                Some (if fgt (prices ! (i + 1)) (prices ! i) then 1 else 0)) \<and>
           map_of labels (last (index df)) = None \<and>
           set y_data \<subseteq> set labels"
proof -
  let ?idx = "index df"
  let ?labels = "zip (butlast ?idx) (map2 label_of (butlast prices) (tl prices))"
  have len: "length prices = length ?idx"
    using column_length [OF wf col] by (simp add: nrows_def)
  have dist: "distinct ?idx"
    using srt by (rule sorted_wrt_less_distinct)
  have mt: "make_target df = Inr ?labels"
    by (simp add: make_target_def col)
  obtain X_data y_data where xy: "prepare_xy df use_lags lags = Inr (X_data, y_data)"
    and sub: "set y_data \<subseteq> set ?labels"
    using set_loc_subset by (auto simp: prepare_xy_def mt Let_def)
  have fst: "map fst ?labels = butlast ?idx"
    using len by (simp add: map_fst_zip)
  have val: "map_of ?labels (?idx ! i) = Some (if fgt (prices ! (i + 1)) (prices ! i) then 1 else 0)"
    if "i + 1 < nrows df" for i
  proof -
    from that have i: "i < length (butlast ?idx)" by (simp add: nrows_def)
    have "map_of ?labels (butlast ?idx ! i) = Some (map2 label_of (butlast prices) (tl prices) ! i)"
      using i len dist by (intro map_of_zip_nth) (simp_all add: distinct_butlast)
    moreover have "butlast ?idx ! i = ?idx ! i"
      using i by (simp add: nth_butlast)
    moreover have "map2 label_of (butlast prices) (tl prices) ! i = label_of (prices ! i) (prices ! (i + 1))"
      using i len by (simp add: nth_butlast nth_tl)
    ultimately show ?thesis by (simp add: label_of_def)
  qed
  have ne: "?idx \<noteq> []" using two by (auto simp: nrows_def)
  have "distinct (butlast ?idx @ [last ?idx])" using dist ne by simp
  then have "last ?idx \<notin> set (butlast ?idx)" by simp
  then have "map_of ?labels (last ?idx) = None"
    using fst by (metis map_of_eq_None_iff list.set_map)
  with mt xy sub fst val show ?thesis by blast
qed

theorem label_series_correct_witness:
  "wf_frame example_prices \<and> sorted_wrt (<) (index example_prices) \<and>
   map_of (columns example_prices) ''BIST100'' = Some [Fin 100, Fin 110, Fin 99, Fin 120] \<and>
   2 \<le> nrows example_prices \<and>
   make_target example_prices = Inr [(1, 1), (2, 0), (3, 1)] \<and>
   (\<exists>labels X_data y_data.
      make_target example_prices = Inr labels \<and>
      prepare_xy example_prices True [1] = Inr (X_data, y_data) \<and>
      map_of labels 1 = Some 1 \<and> map_of labels 2 = Some 0 \<and> map_of labels 3 = Some 1 \<and>
      map_of labels 4 = None \<and> set y_data \<subseteq> set labels)"
proof -
  have h1: "wf_frame example_prices"
    by (simp add: wf_frame_def example_prices_def column_names_def nrows_def)
  have h2: "sorted_wrt (<) (index example_prices)"
    by (simp add: example_prices_def)
  have h3: "map_of (columns example_prices) ''BIST100'' = Some [Fin 100, Fin 110, Fin 99, Fin 120]"
    by (simp add: example_prices_def)
  have h4: "2 \<le> nrows example_prices"
    by (simp add: example_prices_def nrows_def)
  have mt: "make_target example_prices = Inr [(1, 1), (2, 0), (3, 1)]"
    by (simp add: make_target_def example_prices_def label_of_def)
  from label_series_correct [OF h1 h2 h3 h4, of True "[1]"]
  obtain labels X_data y_data where
    a: "make_target example_prices = Inr labels"
    and b: "prepare_xy example_prices True [1] = Inr (X_data, y_data)"
    and c: "\<forall>i. i + 1 < nrows example_prices \<longrightarrow>
              map_of labels (index example_prices ! i) =
                Some (if fgt ([Fin 100, Fin 110, Fin 99, Fin 120] ! (i + 1))
                             ([Fin 100, Fin 110, Fin 99, Fin 120] ! i) then 1 else 0)"
    and d: "map_of labels (last (index example_prices)) = None"
    and e: "set y_data \<subseteq> set labels"
    by blast
  from c [rule_format, of 0] have c0: "map_of labels 1 = Some 1"
    by (simp add: example_prices_def nrows_def)
  from c [rule_format, of 1] have c1: "map_of labels 2 = Some 0"
    by (simp add: example_prices_def nrows_def)
  from c [rule_format, of 2] have c2: "map_of labels 3 = Some 1"
    by (simp add: example_prices_def nrows_def)
  from d have d': "map_of labels 4 = None"
    by (simp add: example_prices_def)
  from h1 h2 h3 h4 mt a b c0 c1 c2 d' e show ?thesis by blast
qed

section \<open>Properties of the change table\<close>

lemma select_rows_nths: "select_rows keep xs = nths xs {i. keep i}"
proof -
  have "map snd (filter (\<lambda>p. keep (fst p)) (zip [0..<length xs] xs)) =
        map fst (filter (\<lambda>p. keep (snd p)) (zip xs [0..<length xs]))"
    by (induction xs rule: rev_induct) auto
  then show ?thesis
    by (simp add: select_rows_def nths_def enumerate_eq_zip)
qed

lemma nths_cong_below:
  "(\<And>i. i < length xs \<Longrightarrow> i \<in> A \<longleftrightarrow> i \<in> B) \<Longrightarrow> nths xs A = nths xs B"
proof -
  assume h: "\<And>i. i < length xs \<Longrightarrow> i \<in> A \<longleftrightarrow> i \<in> B"
  have "filter (\<lambda>p. snd p \<in> A) (zip xs [0..<length xs]) = filter (\<lambda>p. snd p \<in> B) (zip xs [0..<length xs])"
    by (rule filter_cong) (auto dest!: set_zip_rightD simp: h)
  then show ?thesis by (simp add: nths_def)
qed

lemma select_rows_drop:
  assumes "\<And>i. i < length xs \<Longrightarrow> keep i \<longleftrightarrow> m \<le> i"
  shows "select_rows keep xs = drop m xs"
proof -
  have "nths xs {i. keep i} = nths xs {i. m \<le> i}"
    by (rule nths_cong_below) (simp add: assms)
  then show ?thesis
    by (simp add: select_rows_nths drop_eq_nths)
qed

lemma dropna_drop:
  assumes len: "list_all (\<lambda>c. length (snd c) = nrows df) (columns df)"
    and ok: "\<And>i. i < nrows df \<Longrightarrow> row_ok (columns df) i \<longleftrightarrow> m \<le> i"
  shows "dropna df = \<lparr>index = drop m (index df), columns = map (\<lambda>(n, v). (n, drop m v)) (columns df)\<rparr>"
proof -
  have i: "select_rows (row_ok (columns df)) (index df) = drop m (index df)"
    by (rule select_rows_drop) (simp add: ok nrows_def)
  have c: "select_rows (row_ok (columns df)) v = drop m v" if "(n, v) \<in> set (columns df)" for n v
  proof (rule select_rows_drop)
    fix i assume "i < length v"
    moreover have "length v = nrows df"
      using len that by (auto simp: list_all_iff)
    ultimately show "row_ok (columns df) i \<longleftrightarrow> m \<le> i" by (simp add: ok)
  qed
  have "map (\<lambda>(n, v). (n, select_rows (row_ok (columns df)) v)) (columns df) =
        map (\<lambda>(n, v). (n, drop m v)) (columns df)"
    by (rule map_cong) (auto simp: c)
  with i show ?thesis by (simp add: dropna_def)
qed

lemma positive_pct_cell: "positive a \<Longrightarrow> positive b \<Longrightarrow> \<not> isna (pct_cell a b)"
  by (cases a; cases b) (auto simp: pct_cell_def)

lemma isna_pct_change_series:
  assumes "list_all positive v" and "i < length v"
  shows "isna (pct_change_series v ! i) \<longleftrightarrow> i = 0"
proof (cases v)
  case Nil
  with assms show ?thesis by simp
next
  case (Cons x xs)
  show ?thesis
  proof (cases i)
    case 0
    then show ?thesis by (simp add: Cons)
  next
    case (Suc j)
    with assms Cons have j: "j < length xs" by simp
    then have "map2 pct_cell (butlast (x # xs)) xs ! j = pct_cell ((x # xs) ! j) (xs ! j)"
      by (simp add: nth_butlast del: butlast.simps)
    moreover have "positive ((x # xs) ! j)" "positive (xs ! j)"
      using assms(1) j Cons by (auto simp: list_all_length simp del: nth_Cons_Suc dest: spec [of _ j] spec [of _ "Suc j"])
    ultimately show ?thesis
      using Suc Cons positive_pct_cell by simp
  qed
qed

lemma length_pct_change_series [simp]: "length (pct_change_series v) = length v"
  by (cases v) simp_all

lemma fst_comp_on_values [simp]: "fst \<circ> (\<lambda>(n, v). (n, f v)) = fst"
  by (auto simp: fun_eq_iff)

lemma wf_pct_change: "wf_frame df \<Longrightarrow> wf_frame (pct_change df)"
  by (auto simp: wf_frame_def pct_change_def column_names_def nrows_def list_all_iff)

lemma row_ok_pct_change:
  assumes v: "valid_price_table df" and ne: "columns df \<noteq> []" and i: "i < nrows df"
  shows "row_ok (columns (pct_change df)) i \<longleftrightarrow> 1 \<le> i"
proof -
  have cell: "isna (pct_change_series c ! i) \<longleftrightarrow> i = 0" if "(n, c) \<in> set (columns df)" for n c
  proof (rule isna_pct_change_series)
    show "list_all positive c"
      using v that by (auto simp: valid_price_table_def list_all_iff)
    show "i < length c"
      using v that i by (auto simp: valid_price_table_def wf_frame_def list_all_iff)
  qed
  obtain n c where "(n, c) \<in> set (columns df)"
    using ne by (cases "columns df") auto
  with cell show ?thesis
    by (auto simp: row_ok_def pct_change_def list_all_iff)
qed

lemma dropna_pct_change:
  assumes v: "valid_price_table df" and ne: "columns df \<noteq> []"
  shows "dropna (pct_change df) =
           \<lparr>index = tl (index df),
            columns = map (\<lambda>(n, c). (n, tl (pct_change_series c))) (columns df)\<rparr>"
proof -
  have wf: "list_all (\<lambda>c. length (snd c) = nrows (pct_change df)) (columns (pct_change df))"
    using v wf_pct_change [of df] by (simp add: valid_price_table_def wf_frame_def)
  have "dropna (pct_change df) =
          \<lparr>index = drop 1 (index (pct_change df)),
           columns = map (\<lambda>(n, c). (n, drop 1 c)) (columns (pct_change df))\<rparr>"
    using wf
  proof (rule dropna_drop)
    fix i assume "i < nrows (pct_change df)"
    then have "i < nrows df" by (simp add: nrows_def pct_change_def)
    then show "row_ok (columns (pct_change df)) i \<longleftrightarrow> 1 \<le> i"
      by (rule row_ok_pct_change [OF v ne])
  qed
  then show ?thesis
    by (simp add: pct_change_def drop_Suc case_prod_unfold comp_def)
qed

lemma no_na_tl_pct_change_series:
  assumes "list_all positive c"
  shows "list_all (\<lambda>x. \<not> isna x) (tl (pct_change_series c))"
proof -
  have "\<not> isna (tl (pct_change_series c) ! j)" if "j < length (tl (pct_change_series c))" for j
  proof -
    from that have "Suc j < length c" by simp
    with assms have "isna (pct_change_series c ! Suc j) \<longleftrightarrow> Suc j = 0"
      by (rule isna_pct_change_series)
    then show ?thesis using that by (simp add: nth_tl)
  qed
  then show ?thesis by (simp add: list_all_length)
qed

text \<open>
  Claim C2, as amended. For a valid price table (well-formed, strictly increasing index,
  no missing value, positive prices) with at least one row and at least one column, the
  change table of \<open>prepare_data\<close> and the one of \<open>analyze_lag_importance\<close> have exactly
  one row fewer than the price table and contain no missing value.
\<close>

theorem change_table_rows:
  assumes v: "valid_price_table df" and rows: "1 \<le> nrows df" and ne: "columns df \<noteq> []"
  shows "int (nrows (change_table df)) = int (nrows df) - 1 \<and>
         no_missing (change_table df) \<and>
         int (nrows (dropna (pct_change df))) = int (nrows df) - 1 \<and>
         no_missing (dropna (pct_change df))"
proof -
  note d = dropna_pct_change [OF v ne]
  have n: "int (nrows (dropna (pct_change df))) = int (nrows df) - 1"
    using rows by (simp add: d nrows_def)
  have "list_all (\<lambda>x. \<not> isna x) (tl (pct_change_series c))" if "(n, c) \<in> set (columns df)" for n c
    using v that by (intro no_na_tl_pct_change_series) (auto simp: valid_price_table_def list_all_iff)
  then have m: "no_missing (dropna (pct_change df))"
    by (auto simp: d no_missing_def list_all_iff)
  have "nrows (change_table df) = nrows (dropna (pct_change df))"
    by (simp add: change_table_def rename_change_def nrows_def)
  moreover have "no_missing (change_table df) = no_missing (dropna (pct_change df))"
    by (simp add: change_table_def rename_change_def no_missing_def list_all_iff case_prod_unfold)
  ultimately show ?thesis using n m by simp
qed

lemma valid_example_prices: "valid_price_table example_prices"
  by (simp add: valid_price_table_def wf_frame_def no_missing_def example_prices_def
      column_names_def nrows_def)

theorem change_table_rows_witness:
  "valid_price_table example_prices \<and> 1 \<le> nrows example_prices \<and> columns example_prices \<noteq> [] \<and>
   nrows example_prices = 4 \<and> nrows (change_table example_prices) = 3 \<and>
   no_missing (change_table example_prices)"
proof -
  have h2: "1 \<le> nrows example_prices" and h3: "columns example_prices \<noteq> []"
    and n: "nrows example_prices = 4"
    by (simp_all add: example_prices_def nrows_def)
  from change_table_rows [OF valid_example_prices h2 h3] n
  have "nrows (change_table example_prices) = 3" "no_missing (change_table example_prices)"
    by simp_all
  with valid_example_prices h2 h3 n show ?thesis by simp
qed

text \<open>
  The claim as stated fails on a valid price table without rows: its change table has no
  row either, which is not one fewer.
\<close>

theorem change_table_rows_counterexample:
  "valid_price_table empty_prices \<and>
   int (nrows (change_table empty_prices)) \<noteq> int (nrows empty_prices) - 1"
  by (simp add: valid_price_table_def wf_frame_def no_missing_def empty_prices_def
      column_names_def nrows_def change_table_def rename_change_def dropna_def pct_change_def
      select_rows_def)

section \<open>Properties of lag augmentation\<close>

lemma digit_cases: "d < 10 \<Longrightarrow> d \<in> {0, 1, 2, 3, 4, 5, 6, 7, 8, 9 :: nat}"
  by auto

lemma digit_val_digit_char: "d < 10 \<Longrightarrow> digit_val (digit_char d) = d"
  by (drule digit_cases) (auto simp: digit_val_def digit_char_def)

lemma digit_char_in_digits: "d < 10 \<Longrightarrow> digit_char d \<in> set ''0123456789''"
  unfolding digit_char_def by (rule nth_mem) simp

lemma read_nat_str_nat: "read_nat (str_nat n) = n"
proof (induction n rule: str_nat.induct)
  case (1 n)
  show ?case
  proof (cases "n < 10")
    case True
    then show ?thesis
      by (subst str_nat.simps) (simp add: read_nat_def digit_val_digit_char)
  next
    case False
    with 1 have "read_nat (str_nat (n div 10)) = n div 10" by simp
    with False show ?thesis
      by (subst str_nat.simps) (simp add: read_nat_def digit_val_digit_char)
  qed
qed

lemma str_nat_inj: "str_nat a = str_nat b \<Longrightarrow> a = b"
  by (metis read_nat_str_nat)

lemma set_str_nat: "set (str_nat n) \<subseteq> set ''0123456789''"
proof (induction n rule: str_nat.induct)
  case (1 n)
  show ?case
  proof (cases "n < 10")
    case True
    then show ?thesis
      using digit_char_in_digits [of n] by (subst str_nat.simps) simp
  next
    case False
    with 1 have "set (str_nat (n div 10)) \<subseteq> set ''0123456789''" by simp
    moreover have "digit_char (n mod 10) \<in> set ''0123456789''"
      by (rule digit_char_in_digits) simp
    ultimately show ?thesis
      using False by (subst str_nat.simps) simp
  qed
qed

lemma str_nat_not_Nil: "str_nat n \<noteq> []"
  by (subst str_nat.simps) simp

lemma str_int_inj: "str_int a = str_int b \<Longrightarrow> a = b"
proof -
  assume eq: "str_int a = str_int b"
  have nodash: "hd (str_nat n) \<noteq> CHR ''-''" for n
  proof -
    have "hd (str_nat n) \<in> set (str_nat n)" using str_nat_not_Nil by simp
    with set_str_nat [of n] show ?thesis by auto
  qed
  consider "a < 0" "b < 0" | "a < 0" "0 \<le> b" | "0 \<le> a" "b < 0" | "0 \<le> a" "0 \<le> b"
    by linarith
  then show ?thesis
  proof cases
    case 1
    with eq have "str_nat (nat (- a)) = str_nat (nat (- b))" by (simp add: str_int_def)
    then have "nat (- a) = nat (- b)" by (rule str_nat_inj)
    with 1 show ?thesis by simp
  next
    case 2
    with eq have "CHR ''-'' # str_nat (nat (- a)) = str_nat (nat b)" by (simp add: str_int_def)
    then have "hd (str_nat (nat b)) = CHR ''-''" by (metis list.sel(1))
    with nodash show ?thesis by simp
  next
    case 3
    with eq have "str_nat (nat a) = CHR ''-'' # str_nat (nat (- b))" by (simp add: str_int_def)
    then have "hd (str_nat (nat a)) = CHR ''-''" by (metis list.sel(1))
    with nodash show ?thesis by simp
  next
    case 4
    with eq have "str_nat (nat a) = str_nat (nat b)" by (simp add: str_int_def)
    then have "nat a = nat b" by (rule str_nat_inj)
    with 4 show ?thesis by simp
  qed
qed

lemma no_g_in_str_int: "CHR ''g'' \<notin> set (str_int k)"
  using set_str_nat [of "nat k"] set_str_nat [of "nat (- k)"]
  by (auto simp: str_int_def)

lemma lag_col_name_lag:
  assumes "lag_col_name c k = lag_col_name c' k'"
  shows "k = k'"
proof -
  have tw: "takeWhile (\<lambda>ch. ch \<noteq> CHR ''g'') (rev (lag_col_name d j)) = rev (str_int j)" for d j
  proof -
    have "rev (lag_col_name d j) = rev (str_int j) @ (CHR ''g'' # ''al_'' @ rev d)"
      by (simp add: lag_col_name_def)
    moreover have "takeWhile (\<lambda>ch. ch \<noteq> CHR ''g'') (rev (str_int j) @ (CHR ''g'' # ''al_'' @ rev d))
        = rev (str_int j) @ takeWhile (\<lambda>ch. ch \<noteq> CHR ''g'') (CHR ''g'' # ''al_'' @ rev d)"
      using no_g_in_str_int [of j] by (intro takeWhile_append2) auto
    ultimately show ?thesis by simp
  qed
  from assms have "rev (str_int k) = rev (str_int k')"
    by (metis tw)
  then show ?thesis by (simp add: str_int_inj)
qed

lemma lag_col_name_not_target:
  assumes "\<not> startswith c ''BIST100''"
  shows "\<not> startswith (lag_col_name c k) ''BIST100''"
proof
  assume s: "startswith (lag_col_name c k) ''BIST100''"
  define n where "n = length ''BIST100''"
  have n7: "n = 7" by (simp add: n_def)
  let ?r = "''lag'' @ str_int k"
  have eq: "take n (c @ CHR ''_'' # ?r) = ''BIST100''"
    using s by (simp add: startswith_def lag_col_name_def n_def)
  show False
  proof (cases "length c < n")
    case True
    then have "take n (c @ CHR ''_'' # ?r) ! length c = CHR ''_''"
      by (simp add: nth_append)
    moreover have "length c < length (take n (c @ CHR ''_'' # ?r))"
      using True by simp
    ultimately have "CHR ''_'' \<in> set (take n (c @ CHR ''_'' # ?r))"
      by (metis nth_mem)
    with eq show False by simp
  next
    case False
    then have "take n (c @ CHR ''_'' # ?r) = take n c" by simp
    with eq assms show False by (simp add: startswith_def n_def)
  qed
qed

lemma in_set_assign:
  "(a, b) \<in> set (assign k v kvs) \<longleftrightarrow> (a = k \<and> b = v) \<or> (a \<noteq> k \<and> (a, b) \<in> set kvs)"
  by (auto simp: assign_def image_iff)

lemma map_fst_replace: "map fst (map (\<lambda>p. if fst p = k then (k, v) else p) kvs) = map fst kvs"
  by (induction kvs) auto

lemma keys_assign: "set (map fst (assign k v kvs)) = insert k (set (map fst kvs))"
proof (cases "k \<in> set (map fst kvs)")
  case True
  then have "map fst (assign k v kvs) = map fst kvs"
    unfolding assign_def by (simp only: if_True map_fst_replace)
  with True show ?thesis by (simp only: insert_absorb)
next
  case False
  then show ?thesis by (simp add: assign_def)
qed

lemma length_shift [simp]: "length (shift k xs) = length xs"
  by (auto simp: shift_def Let_def)

lemma na_below_shift:
  assumes "list_all (\<lambda>x. \<not> isna x) xs" and "0 \<le> k"
  shows "na_below k (shift k xs)"
proof -
  have "isna (shift k xs ! i) \<longleftrightarrow> int i < k" if "i < length xs" for i
  proof (cases "i < nat k")
    case True
    with that assms(2) show ?thesis
      by (simp add: shift_def Let_def nth_append)
  next
    case False
    with that have "i - nat k < length xs - nat k" by simp
    moreover have "\<not> isna (xs ! (i - nat k))"
      using assms(1) that by (simp add: list_all_length)
    ultimately show ?thesis
      using False that assms(2) by (simp add: shift_def Let_def nth_append min_def)
  qed
  then show ?thesis by (simp add: na_below_def)
qed

lemma na_below_no_missing: "list_all (\<lambda>x. \<not> isna x) xs \<Longrightarrow> na_below 0 xs"
  by (simp add: na_below_def list_all_length)

lemma add_lags_col_fold:
  "add_lags_col lags col cols =
     fold (\<lambda>(nm, v) acc. assign nm v acc)
       (map (\<lambda>lag. (lag_col_name (fst col) lag, shift lag (snd col))) lags) cols"
  by (simp add: add_lags_col_def fold_map comp_def)

lemma with_lags_fold:
  "with_lags df_pct lags = fold (\<lambda>(nm, v) acc. assign nm v acc) (lag_ops df_pct lags) (columns df_pct)"
proof -
  have "fold (add_lags_col lags) cs acc =
        fold (\<lambda>(nm, v) acc. assign nm v acc)
          (concat (map (\<lambda>col. map (\<lambda>lag. (lag_col_name (fst col) lag, shift lag (snd col))) lags) cs)) acc"
    for cs acc
    by (induction cs arbitrary: acc) (simp_all add: add_lags_col_fold)
  then show ?thesis by (simp add: with_lags_def lag_ops_def)
qed

lemma fold_assign_all:
  assumes "\<forall>c \<in> set cols. Q (snd c)" and "\<forall>p \<in> set ops. Q (snd p)"
  shows "\<forall>c \<in> set (fold (\<lambda>(nm, v) acc. assign nm v acc) ops cols). Q (snd c)"
  using assms
proof (induction ops arbitrary: cols)
  case Nil
  then show ?case by simp
next
  case (Cons p ops)
  obtain nm v where p: "p = (nm, v)" by (cases p)
  have "\<forall>c \<in> set (assign nm v cols). Q (snd c)"
    using Cons.prems p by (auto simp: in_set_assign)
  with Cons.IH [of "assign nm v cols"] Cons.prems(2) show ?case
    by (simp add: p)
qed

lemma fold_assign_keys:
  "set (map fst (fold (\<lambda>(nm, v) acc. assign nm v acc) ops cols)) = set (map fst cols) \<union> set (map fst ops)"
proof (induction ops arbitrary: cols)
  case Nil
  then show ?case by simp
next
  case (Cons p ops)
  obtain nm v where p: "p = (nm, v)" by (cases p)
  show ?case
    using Cons.IH [of "assign nm v cols"] by (simp add: p keys_assign del: set_map)
qed

lemma fold_assign_keeps:
  assumes "\<forall>p \<in> set ops. fst p = k \<longrightarrow> P (snd p)"
    and "(\<exists>v. (k, v) \<in> set cols \<and> P v) \<or> k \<in> fst ` set ops"
  shows "\<exists>v. (k, v) \<in> set (fold (\<lambda>(nm, v) acc. assign nm v acc) ops cols) \<and> P v"
  using assms
proof (induction ops arbitrary: cols)
  case Nil
  then show ?case by simp
next
  case (Cons p ops)
  obtain nm v where p: "p = (nm, v)" by (cases p)
  have "(\<exists>w. (k, w) \<in> set (assign nm v cols) \<and> P w) \<or> k \<in> fst ` set ops"
  proof (cases "nm = k")
    case True
    with Cons.prems(1) p have "P v" by simp
    with True show ?thesis by (auto simp: in_set_assign)
  next
    case False
    with Cons.prems(2) p show ?thesis by (auto simp: in_set_assign)
  qed
  with Cons.IH [of "assign nm v cols"] Cons.prems(1) show ?case
    by (simp add: p)
qed

lemma set_lag_ops:
  "set (lag_ops df lags) =
     {(lag_col_name (fst c) k, shift k (snd c)) | c k. c \<in> set (external_cols df) \<and> k \<in> set lags}"
  by (force simp: lag_ops_def)

lemma fst_image_pairs: "fst ` {(f c k, g c k) | c k. P c k} = {f c k | c k. P c k}"
  by force

lemma column_names_dropna [simp]: "column_names (dropna df) = column_names df"
  by (simp add: dropna_def column_names_def)

lemma with_lags_cols:
  assumes wf: "wf_frame df" and nm: "no_missing df"
    and ne: "lags \<noteq> []" and nonneg: "\<forall>k \<in> set lags. 0 \<le> k"
    and c: "c \<in> set (with_lags df lags)"
  shows "length (snd c) = nrows df \<and> (\<exists>k. 0 \<le> k \<and> k \<le> Max (set lags) \<and> na_below k (snd c))"
proof -
  let ?m = "Max (set lags)"
  let ?ops = "lag_ops df lags"
  let ?Q = "\<lambda>v. length v = nrows df \<and> (\<exists>k. 0 \<le> k \<and> k \<le> ?m \<and> na_below k v)"
  have "?m \<in> set lags" using ne by (intro Max_in) auto
  then have m0: "0 \<le> ?m" using nonneg by blast
  have col_len: "length (snd c) = nrows df" if "c \<in> set (columns df)" for c
    using wf that by (auto simp: wf_frame_def list_all_iff)
  have col_nona: "list_all (\<lambda>x. \<not> isna x) (snd c)" if "c \<in> set (columns df)" for c
    using nm that by (auto simp: no_missing_def list_all_iff)
  have Q_cols: "\<forall>c \<in> set (columns df). ?Q (snd c)"
  proof
    fix c assume c: "c \<in> set (columns df)"
    have "na_below 0 (snd c)" using col_nona [OF c] by (rule na_below_no_missing)
    with m0 have "\<exists>k. 0 \<le> k \<and> k \<le> ?m \<and> na_below k (snd c)" by blast
    with col_len [OF c] show "?Q (snd c)" by simp
  qed
  have Q_ops: "\<forall>p \<in> set ?ops. ?Q (snd p)"
  proof
    fix p assume "p \<in> set ?ops"
    then obtain c k where p: "p = (lag_col_name (fst c) k, shift k (snd c))"
      and c: "c \<in> set (external_cols df)" and k: "k \<in> set lags"
      by (auto simp: set_lag_ops)
    from c have c': "c \<in> set (columns df)" by (simp add: external_cols_def)
    have k0: "0 \<le> k" using k nonneg by blast
    moreover have "k \<le> ?m" using k by simp
    moreover have "na_below k (shift k (snd c))"
      using col_nona [OF c'] k0 by (rule na_below_shift)
    ultimately show "?Q (snd p)" using col_len [OF c'] by (auto simp: p)
  qed
  have "\<forall>c \<in> set (with_lags df lags). ?Q (snd c)"
    unfolding with_lags_fold using Q_cols Q_ops by (rule fold_assign_all)
  with c show ?thesis by blast
qed

lemma with_lags_max:
  assumes nm: "no_missing df"
    and ne: "lags \<noteq> []" and nonneg: "\<forall>k \<in> set lags. 0 \<le> k"
    and ext: "external_cols df \<noteq> []"
  shows "\<exists>n v. (n, v) \<in> set (with_lags df lags) \<and> na_below (Max (set lags)) v"
proof -
  let ?m = "Max (set lags)"
  let ?ops = "lag_ops df lags"
  have m_in: "?m \<in> set lags" using ne by (intro Max_in) auto
  then have m0: "0 \<le> ?m" using nonneg by blast
  obtain c0 where c0: "c0 \<in> set (external_cols df)"
    using ext by (cases "external_cols df") auto
  let ?k = "lag_col_name (fst c0) ?m"
  have same: "\<forall>p \<in> set ?ops. fst p = ?k \<longrightarrow> na_below ?m (snd p)"
  proof (intro ballI impI)
    fix p assume "p \<in> set ?ops" and eq: "fst p = ?k"
    then obtain c k where p: "p = (lag_col_name (fst c) k, shift k (snd c))"
      and c: "c \<in> set (external_cols df)" and k: "k \<in> set lags"
      unfolding set_lag_ops by blast
    from eq p have "lag_col_name (fst c) k = ?k" by simp
    then have "k = ?m" by (rule lag_col_name_lag)
    moreover from c have "c \<in> set (columns df)" by (simp add: external_cols_def)
    with nm have "list_all (\<lambda>x. \<not> isna x) (snd c)" by (auto simp: no_missing_def list_all_iff)
    ultimately show "na_below ?m (snd p)"
      using m0 by (simp add: p na_below_shift)
  qed
  have "(?k, shift ?m (snd c0)) \<in> set ?ops"
    unfolding set_lag_ops using c0 m_in by blast
  then have "?k \<in> fst ` set ?ops"
    by (metis fst_conv image_eqI)
  then have "\<exists>v. (?k, v) \<in> set (with_lags df lags) \<and> na_below ?m v"
    unfolding with_lags_fold using same by (intro fold_assign_keeps) auto
  then show ?thesis by blast
qed

lemma row_ok_with_lags:
  assumes wf: "wf_frame df" and nm: "no_missing df"
    and ne: "lags \<noteq> []" and nonneg: "\<forall>k \<in> set lags. 0 \<le> k"
    and ext: "external_cols df \<noteq> []"
    and i: "i < nrows df"
  shows "row_ok (with_lags df lags) i \<longleftrightarrow> nat (Max (set lags)) \<le> i"
proof -
  let ?m = "Max (set lags)"
  let ?C = "with_lags df lags"
  note allQ = with_lags_cols [OF wf nm ne nonneg]
  from with_lags_max [OF nm ne nonneg ext]
  obtain n v where v: "(n, v) \<in> set ?C" and vm: "na_below ?m v" by blast
  from allQ [OF v] have vlen: "length v = nrows df" by simp
  show ?thesis
  proof
    assume "row_ok ?C i"
    with v have "\<not> isna (v ! i)" by (auto simp: row_ok_def list_all_iff)
    with vm vlen i have "\<not> int i < ?m" by (simp add: na_below_def)
    then show "nat ?m \<le> i" by linarith
  next
    assume mi: "nat ?m \<le> i"
    have "\<not> isna (snd c ! i)" if "c \<in> set ?C" for c
    proof -
      from allQ [OF that] obtain k where "length (snd c) = nrows df" "k \<le> ?m" "na_below k (snd c)"
        by blast
      with i mi show ?thesis by (auto simp: na_below_def)
    qed
    then show "row_ok ?C i" by (simp add: row_ok_def list_all_iff)
  qed
qed

text \<open>
  Claim C3, as amended. For a well-formed change table without missing values that has
  at least one column whose name does not start with BIST100, and a non-empty list of
  non-negative lags, the lag-augmented table has \<open>max(0, rows - max(lags))\<close> rows; its
  columns are those of the change table and one column \<open>c_lagk\<close> for every column \<open>c\<close>
  not starting with BIST100 and every lag \<open>k\<close>; so every column of the result whose
  name starts with BIST100 was a column of the input, and the target column gets no
  lagged copy.
\<close>

theorem add_lag_features_rows:
  assumes wf: "wf_frame df" and nm: "no_missing df"
    and ne: "lags \<noteq> []" and nonneg: "\<forall>k \<in> set lags. 0 \<le> k"
    and ext: "external_cols df \<noteq> []"
  shows "int (nrows (add_lag_features df lags)) = max 0 (int (nrows df) - Max (set lags)) \<and>
         set (column_names (add_lag_features df lags)) =
           set (column_names df) \<union>
           {lag_col_name (fst c) k | c k. c \<in> set (external_cols df) \<and> k \<in> set lags} \<and>
         (\<forall>n \<in> set (column_names (add_lag_features df lags)).
            startswith n ''BIST100'' \<longrightarrow> n \<in> set (column_names df))"
proof -
  let ?X = "df\<lparr>columns := with_lags df lags\<rparr>"
  let ?m = "nat (Max (set lags))"
  have rows: "nrows ?X = nrows df" by (simp add: nrows_def)
  have "dropna ?X = \<lparr>index = drop ?m (index ?X), columns = map (\<lambda>(n, v). (n, drop ?m v)) (columns ?X)\<rparr>"
  proof (rule dropna_drop)
    show "list_all (\<lambda>c. length (snd c) = nrows ?X) (columns ?X)"
      using with_lags_cols [OF wf nm ne nonneg] by (simp add: rows list_all_iff)
  next
    fix i assume "i < nrows ?X"
    then show "row_ok (columns ?X) i \<longleftrightarrow> ?m \<le> i"
      using row_ok_with_lags [OF wf nm ne nonneg ext] by (simp add: rows)
  qed
  then have "nrows (add_lag_features df lags) = nrows df - ?m"
    by (simp add: add_lag_features_def nrows_def)
  moreover have "Max (set lags) \<in> set lags" using ne by (intro Max_in) auto
  then have "0 \<le> Max (set lags)" using nonneg by blast
  ultimately have r: "int (nrows (add_lag_features df lags)) = max 0 (int (nrows df) - Max (set lags))"
    by linarith
  have "column_names (add_lag_features df lags) = map fst (with_lags df lags)"
    unfolding add_lag_features_def column_names_dropna by (simp add: column_names_def)
  then have "set (column_names (add_lag_features df lags)) = set (map fst (with_lags df lags))"
    by simp
  also have "\<dots> = set (map fst (columns df)) \<union> set (map fst (lag_ops df lags))"
    unfolding with_lags_fold by (rule fold_assign_keys)
  also have "set (map fst (lag_ops df lags)) =
      {lag_col_name (fst c) k | c k. c \<in> set (external_cols df) \<and> k \<in> set lags}"
    unfolding set_map set_lag_ops by (rule fst_image_pairs)
  finally have n: "set (column_names (add_lag_features df lags)) =
           set (column_names df) \<union>
           {lag_col_name (fst c) k | c k. c \<in> set (external_cols df) \<and> k \<in> set lags}"
    unfolding column_names_def .
  have nt: "\<not> startswith (lag_col_name (fst c) k) ''BIST100''" if "c \<in> set (external_cols df)" for c k
    using that by (intro lag_col_name_not_target) (simp add: external_cols_def)
  have t: "\<forall>n \<in> set (column_names (add_lag_features df lags)).
            startswith n ''BIST100'' \<longrightarrow> n \<in> set (column_names df)"
  proof (intro ballI impI)
    fix x assume "x \<in> set (column_names (add_lag_features df lags))" and s: "startswith x ''BIST100''"
    then consider "x \<in> set (column_names df)"
      | c k where "x = lag_col_name (fst c) k" "c \<in> set (external_cols df)"
      unfolding n by blast
    then show "x \<in> set (column_names df)"
      using nt s by cases auto
  qed
  show ?thesis
  proof (intro conjI)
    show "int (nrows (add_lag_features df lags)) = max 0 (int (nrows df) - Max (set lags))"
      by (rule r)
    show "set (column_names (add_lag_features df lags)) =
           set (column_names df) \<union>
           {lag_col_name (fst c) k | c k. c \<in> set (external_cols df) \<and> k \<in> set lags}"
      by (rule n)
    show "\<forall>n \<in> set (column_names (add_lag_features df lags)).
            startswith n ''BIST100'' \<longrightarrow> n \<in> set (column_names df)"
      by (rule t)
  qed
qed

lemma external_example: "external_cols example_changes = [(''Gold_change'', [Fin 1, Fin (- 1 / 2), Fin (- 1 / 2)])]"
  by (simp add: external_cols_def example_changes_def startswith_def)

theorem add_lag_features_rows_witness:
  "wf_frame example_changes \<and> no_missing example_changes \<and> [1, 2 :: int] \<noteq> [] \<and>
   (0 :: int) \<le> 1 \<and> (0 :: int) \<le> 2 \<and> external_cols example_changes \<noteq> [] \<and>
   nrows example_changes = 3 \<and> nrows (add_lag_features example_changes [1, 2]) = 1 \<and>
   set (column_names (add_lag_features example_changes [1, 2])) =
     {''BIST100_change'', ''Gold_change'', ''Gold_change_lag1'', ''Gold_change_lag2''}"
proof -
  have h1: "wf_frame example_changes"
    by (simp add: wf_frame_def example_changes_def column_names_def nrows_def)
  have h2: "no_missing example_changes"
    by (simp add: no_missing_def example_changes_def)
  have h3: "[1, 2 :: int] \<noteq> []" by simp
  have h4: "\<forall>k \<in> set [1, 2 :: int]. 0 \<le> k" by simp
  have h5: "external_cols example_changes \<noteq> []" by (simp add: external_example)
  have n: "nrows example_changes = 3" by (simp add: example_changes_def nrows_def)
  have s1: "str_int 1 = ''1''" and s2: "str_int 2 = ''2''"
    by (simp_all add: str_int_def str_nat.simps digit_char_def)
  have "{lag_col_name (fst c) k | c k. c \<in> set (external_cols example_changes) \<and> k \<in> set [1, 2 :: int]}
      = {lag_col_name ''Gold_change'' 1, lag_col_name ''Gold_change'' 2}"
    by (auto simp: external_example)
  then have names: "{lag_col_name (fst c) k | c k. c \<in> set (external_cols example_changes) \<and> k \<in> set [1, 2 :: int]}
      = {''Gold_change_lag1'', ''Gold_change_lag2''}"
    by (simp add: lag_col_name_def s1 s2)
  note main = add_lag_features_rows [OF h1 h2 h3 h4 h5]
  from main n have r: "nrows (add_lag_features example_changes [1, 2]) = 1" by simp
  from main have "set (column_names (add_lag_features example_changes [1, 2])) =
     set (column_names example_changes) \<union> {''Gold_change_lag1'', ''Gold_change_lag2''}"
    unfolding names by blast
  then have c: "set (column_names (add_lag_features example_changes [1, 2])) =
     {''BIST100_change'', ''Gold_change'', ''Gold_change_lag1'', ''Gold_change_lag2''}"
    by (simp add: column_names_def example_changes_def insert_commute)
  from h1 h2 h3 h5 n r c show ?thesis by simp
qed

lemma over_long_lag: "nrows (add_lag_features example_changes [5]) = 0"
proof -
  have s: "str_int 5 = ''5''"
    by (simp add: str_int_def str_nat.simps digit_char_def)
  have e: "external_cols example_changes = [(''Gold_change'', [Fin 1, Fin (- 1 / 2), Fin (- 1 / 2)])]"
    by (simp add: external_cols_def example_changes_def startswith_def)
  have w: "with_lags example_changes [5] =
      [(''BIST100_change'', [Fin (1 / 10), Fin (- 1 / 10), Fin (7 / 33)]),
       (''Gold_change'', [Fin 1, Fin (- 1 / 2), Fin (- 1 / 2)]),
       (''Gold_change_lag5'', [NaN, NaN, NaN])]"
    by (simp add: with_lags_def e add_lags_col_def lag_col_name_def s assign_def shift_def)
       (simp add: example_changes_def)
  show ?thesis
    by (simp add: add_lag_features_def w)
       (simp add: dropna_def select_rows_def row_ok_def nrows_def example_changes_def)
qed

text \<open>
  The claim as stated fails on a change table that has only the target column: no lag
  column is added, no row is dropped, and the table keeps its three rows for the lag 1.
  It also fails when the largest lag exceeds the number of rows: the table of three rows
  is left with no row for the lag 5, not with three minus five.
\<close>

theorem add_lag_features_rows_counterexample:
  "wf_frame target_only_changes \<and> no_missing target_only_changes \<and> [1 :: int] \<noteq> [] \<and>
   int (nrows (add_lag_features target_only_changes [1])) \<noteq>
     int (nrows target_only_changes) - Max (set [1]) \<and>
   wf_frame example_changes \<and> no_missing example_changes \<and> [5 :: int] \<noteq> [] \<and>
   int (nrows (add_lag_features example_changes [5])) \<noteq>
     int (nrows example_changes) - Max (set [5])"
proof -
  have e: "external_cols target_only_changes = []"
    by (simp add: external_cols_def target_only_changes_def startswith_def)
  have "add_lag_features target_only_changes [1] = target_only_changes"
    by (simp add: add_lag_features_def with_lags_def e)
       (simp add: target_only_changes_def dropna_def select_rows_def row_ok_def)
  then have a: "wf_frame target_only_changes \<and> no_missing target_only_changes \<and>
      int (nrows (add_lag_features target_only_changes [1])) \<noteq>
        int (nrows target_only_changes) - Max (set [1])"
    by (simp add: wf_frame_def no_missing_def target_only_changes_def column_names_def nrows_def)
  have b: "wf_frame example_changes \<and> no_missing example_changes \<and>
      int (nrows (add_lag_features example_changes [5])) \<noteq> int (nrows example_changes) - Max (set [5])"
    by (simp add: over_long_lag)
       (simp add: wf_frame_def no_missing_def example_changes_def column_names_def nrows_def)
  from a b show ?thesis by simp
qed

section \<open>Properties of the lag-correlation analysis\<close>

lemma fold_append_emit: "fold (\<lambda>x acc. acc @ f x) xs acc = acc @ concat (map f xs)"
  by (induction xs arbitrary: acc) simp_all

lemma lag_step_append:
  "lag_step df_pct target col lag acc =
     acc @ (if valid_idx df_pct (snd col) lag \<noteq> [] then [emit_record df_pct target col lag] else [])"
  by (simp add: lag_step_def emit_record_def Let_def)

lemma lag_records_concat:
  "lag_records df_pct target target_col =
     concat (map (\<lambda>col. concat (map (\<lambda>lag.
         if valid_idx df_pct (snd col) lag \<noteq> [] then [emit_record df_pct target col lag] else [])
       [1..max_lag])) (other_cols df_pct target_col))"
proof -
  have inner: "fold (lag_step df_pct target col) lags acc =
      acc @ concat (map (\<lambda>lag.
         if valid_idx df_pct (snd col) lag \<noteq> [] then [emit_record df_pct target col lag] else []) lags)"
    for col lags acc
    by (induction lags arbitrary: acc) (simp_all add: lag_step_append)
  show ?thesis
    unfolding lag_records_def inner by (simp add: fold_append_emit)
qed

lemma lag_records_refines: "lag_records df_pct target target_col = lag_records_spec df_pct target target_col"
proof -
  have f: "concat (map (\<lambda>x. if P x then g x else []) xs) = concat (map g (filter P xs))" for P g and xs :: "'a list"
    by (induction xs) simp_all
  show ?thesis
    unfolding lag_records_concat lag_records_spec_def other_cols_def max_lag_def
    by (simp add: f concat_map_singleton cong: if_cong) 
qed

lemma in_lag_records:
  "r \<in> set (lag_records df_pct target target_col) \<longleftrightarrow>
     (\<exists>col lag. col \<in> set (columns df_pct) \<and> fst col \<noteq> target_col \<and> 1 \<le> lag \<and> lag \<le> 30 \<and>
        valid_idx df_pct (snd col) lag \<noteq> [] \<and> r = emit_record df_pct target col lag)"
proof -
  have "r \<in> set (lag_records df_pct target target_col) \<longleftrightarrow>
     (\<exists>col \<in> set (columns df_pct). fst col \<noteq> target_col \<and>
        (\<exists>lag \<in> {1..30}. valid_idx df_pct (snd col) lag \<noteq> [] \<and> r = emit_record df_pct target col lag))"
    unfolding lag_records_concat other_cols_def max_lag_def by auto force+
  also have "\<dots> \<longleftrightarrow> (\<exists>col lag. col \<in> set (columns df_pct) \<and> fst col \<noteq> target_col \<and> 1 \<le> lag \<and> lag \<le> 30 \<and>
        valid_idx df_pct (snd col) lag \<noteq> [] \<and> r = emit_record df_pct target col lag)"
    unfolding Bex_def atLeastAtMost_iff by blast
  finally show ?thesis .
qed

lemma pearson_single: "pearson [a] [b] = NaN"
  by (cases a; cases b) (simp_all add: pearson_def pearson_real_def mean_def List.map_filter_simps)

lemma length_loc_le:
  assumes "distinct (map fst s)" and "length idx \<le> 1"
  shows "length (loc idx s) \<le> 1"
proof -
  have one: "length (filter (\<lambda>r. fst r = d) s) \<le> 1" for d
    using assms(1)
  proof (induction s)
    case Nil
    then show ?case by simp
  next
    case (Cons x xs)
    then show ?case by (auto simp: filter_empty_conv image_iff)
  qed
  from assms(2) consider "idx = []" | d where "idx = [d]"
    by (cases idx) auto
  then show ?thesis
    using one by cases (simp_all add: loc_def)
qed

lemma corr_short:
  assumes "length s \<le> 1" and "length t \<le> 1"
  shows "corr s t = NaN"
proof -
  from assms(1) consider "s = []" | x where "s = [x]" by (cases s) auto
  then show ?thesis
  proof cases
    case 1
    then show ?thesis by (simp add: corr_def)
  next
    case 2
    from assms(2) consider "t = []" | y where "t = [y]" by (cases t) auto
    then show ?thesis
      using 2 by cases (simp_all add: corr_def pearson_single)
  qed
qed

lemma record_short_overlap:
  assumes d: "distinct (index df_pct)" and short: "length (valid_idx df_pct (snd col) lag) < 2"
  shows "correlation (emit_record df_pct (zip (index df_pct) tvals) col lag) = NaN"
proof -
  let ?vi = "valid_idx df_pct (snd col) lag"
  have dz: "distinct (map fst (zip (index df_pct) vs))" for vs :: "fval list"
    using d by (simp add: map_fst_zip_take distinct_take)
  have le: "length ?vi \<le> 1" using short by simp
  have "length (loc ?vi (zip (index df_pct) tvals)) \<le> 1"
    using dz le by (rule length_loc_le)
  moreover have "length (loc ?vi (lagged_series df_pct (snd col) lag)) \<le> 1"
    unfolding lagged_series_def using dz le by (rule length_loc_le)
  ultimately show ?thesis
    by (simp add: emit_record_def corr_short)
qed

text \<open>
  On a valid price table the dates on which a shifted change series has a value are the
  dates of the change table from row \<open>lag\<close> on, so a record is emitted exactly for the
  lags up to the number of rows of the price table minus two; a price table of at most
  two rows yields no record and makes the analysis raise.
\<close>

lemma filter_zip_shift:
  assumes "length idx = length vals" and "list_all (\<lambda>x. \<not> isna x) vals" and "0 \<le> lag"
  shows "map fst (filter (\<lambda>r. \<not> isna (snd r)) (zip idx (shift lag vals))) = drop (nat lag) idx"
proof -
  let ?k = "min (nat lag) (length vals)"
  have s: "shift lag vals = replicate ?k NaN @ take (length vals - nat lag) vals"
    using assms(3) by (simp add: shift_def Let_def)
  have z: "zip idx (shift lag vals) =
      zip (take ?k idx) (replicate ?k NaN) @ zip (drop ?k idx) (take (length vals - nat lag) vals)"
    unfolding s by (simp add: zip_append2)
  have a: "filter (\<lambda>r. \<not> isna (snd r)) (zip (take ?k idx) (replicate ?k NaN)) = []"
    by (auto simp: filter_empty_conv dest!: set_zip_rightD)
  have "\<not> isna (snd r)" if "r \<in> set (zip (drop ?k idx) (take (length vals - nat lag) vals))" for r
  proof -
    from that have "snd r \<in> set vals"
      by (metis in_set_takeD set_zip_rightD prod.collapse)
    with assms(2) show ?thesis by (simp add: list_all_iff)
  qed
  then have b: "filter (\<lambda>r. \<not> isna (snd r)) (zip (drop ?k idx) (take (length vals - nat lag) vals)) =
      zip (drop ?k idx) (take (length vals - nat lag) vals)"
    by (simp add: filter_id_conv)
  have m: "map fst (zip (drop ?k idx) (take (length vals - nat lag) vals)) = drop ?k idx"
    using assms(1) by (simp add: map_fst_zip_take min_def)
  have dk: "drop ?k idx = drop (nat lag) idx"
    using assms(1) by (simp add: min_def)
  have "filter (\<lambda>r. \<not> isna (snd r)) (zip idx (shift lag vals)) =
      zip (drop ?k idx) (take (length vals - nat lag) vals)"
    unfolding z filter_append a b by (simp only: append_Nil)
  then have "map fst (filter (\<lambda>r. \<not> isna (snd r)) (zip idx (shift lag vals))) = drop ?k idx"
    using m by (simp only:)
  then show ?thesis
    using dk by (simp only:)
qed

lemma valid_idx_no_missing:
  assumes "distinct (index df_pct)" and "length vals = nrows df_pct"
    and "list_all (\<lambda>x. \<not> isna x) vals" and "0 \<le> lag"
  shows "valid_idx df_pct vals lag = drop (nat lag) (index df_pct)"
proof -
  have "map fst (filter (\<lambda>r. \<not> isna (snd r)) (lagged_series df_pct vals lag)) = drop (nat lag) (index df_pct)"
    unfolding lagged_series_def using assms by (intro filter_zip_shift) (simp_all add: nrows_def)
  moreover have "filter (\<lambda>d. d \<in> set (index df_pct)) (drop (nat lag) (index df_pct)) = drop (nat lag) (index df_pct)"
    by (auto simp: filter_id_conv dest: in_set_dropD)
  moreover have "distinct (drop (nat lag) (index df_pct))"
    using assms(1) by simp
  ultimately show ?thesis
    by (simp add: valid_idx_def index_intersection_def distinct_remdups_id)
qed

lemma valid_idx_of_price_table:
  assumes v: "valid_price_table df" and ne: "columns df \<noteq> []"
    and c: "col \<in> set (columns (dropna (pct_change df)))" and lag: "0 \<le> lag"
  shows "valid_idx (dropna (pct_change df)) (snd col) lag = drop (nat lag) (tl (index df)) \<and>
         (valid_idx (dropna (pct_change df)) (snd col) lag \<noteq> [] \<longleftrightarrow> lag + 2 \<le> int (nrows df))"
proof -
  let ?dp = "dropna (pct_change df)"
  note d = dropna_pct_change [OF v ne]
  from c obtain n c0 where c0: "(n, c0) \<in> set (columns df)" and col: "snd col = tl (pct_change_series c0)"
    by (auto simp: d)
  have idx: "index ?dp = tl (index df)" by (simp add: d)
  have "distinct (index df)"
    using v by (simp add: valid_price_table_def sorted_wrt_less_distinct)
  then have dist: "distinct (index ?dp)" by (simp add: idx distinct_tl)
  have "length c0 = nrows df"
    using v c0 by (auto simp: valid_price_table_def wf_frame_def list_all_iff)
  then have len: "length (snd col) = nrows ?dp"
    by (simp add: col idx nrows_def)
  have "list_all positive c0"
    using v c0 by (auto simp: valid_price_table_def list_all_iff)
  then have nona: "list_all (\<lambda>x. \<not> isna x) (snd col)"
    unfolding col by (rule no_na_tl_pct_change_series)
  have eq: "valid_idx ?dp (snd col) lag = drop (nat lag) (tl (index df))"
    using valid_idx_no_missing [OF dist len nona lag] by (simp add: idx)
  have "drop (nat lag) (tl (index df)) \<noteq> [] \<longleftrightarrow> lag + 2 \<le> int (nrows df)"
    using lag by (auto simp: nrows_def)
  with eq show ?thesis by simp
qed

lemma records_of_price_table:
  assumes v: "valid_price_table df" and ne: "columns df \<noteq> []"
  shows "r \<in> set (lag_records (dropna (pct_change df)) target target_col) \<longleftrightarrow>
     (\<exists>col lag. col \<in> set (columns (dropna (pct_change df))) \<and> fst col \<noteq> target_col \<and>
        1 \<le> lag \<and> lag \<le> 30 \<and> lag + 2 \<le> int (nrows df) \<and>
        r = emit_record (dropna (pct_change df)) target col lag)"
proof -
  have "valid_idx (dropna (pct_change df)) (snd col) lag \<noteq> [] \<longleftrightarrow> lag + 2 \<le> int (nrows df)"
    if "col \<in> set (columns (dropna (pct_change df)))" and "1 \<le> lag" for col lag
    using valid_idx_of_price_table [OF v ne that(1), of lag] that(2) by linarith
  then show ?thesis
    unfolding in_lag_records by blast
qed

lemma short_price_table_raises:
  assumes v: "valid_price_table df" and ne: "columns df \<noteq> []" and short: "nrows df \<le> 2"
    and tgt: "target_col \<in> set (column_names df)"
  shows "analyze_lag_importance df target_col = Inl (KeyError ''variable'')"
proof -
  let ?dp = "dropna (pct_change df)"
  have "column_names ?dp = column_names df"
    by (simp add: dropna_pct_change [OF v ne] column_names_def case_prod_unfold comp_def)
  with tgt have "target_col \<in> set (map fst (columns ?dp))"
    by (simp only: column_names_def)
  then have "map_of (columns ?dp) target_col \<noteq> None"
    by (simp add: map_of_eq_None_iff)
  then obtain tvals where t: "map_of (columns ?dp) target_col = Some tvals" by blast
  have "r \<notin> set (lag_records ?dp (zip (index ?dp) tvals) target_col)" for r
    unfolding records_of_price_table [OF v ne] using short by auto
  then have "lag_records ?dp (zip (index ?dp) tvals) target_col = []"
    by (simp add: set_empty [symmetric] set_eq_iff del: set_empty)
  then show ?thesis
    by (simp add: analyze_lag_importance_def Let_def t pivot_def)
qed

text \<open>
  Claim C4. The records that \<open>analyze_lag_importance\<close> collects are, in this order, one
  record for every column other than the target and every lag from 1 to 30 for which the
  valid dates of the lag-shifted change series meet the dates of the target, and no
  record for any other pair; the correlation of a record is that of the two series
  restricted to those dates (\<open>emit_record\<close>); and with a duplicate-free index a record
  whose overlap has fewer than two dates has the correlation NaN.
\<close>

theorem lag_records_emitted:
  "lag_records df_pct (zip (index df_pct) tvals) target_col =
     lag_records_spec df_pct (zip (index df_pct) tvals) target_col \<and>
   (\<forall>r. r \<in> set (lag_records df_pct (zip (index df_pct) tvals) target_col) \<longleftrightarrow>
      (\<exists>col lag. col \<in> set (columns df_pct) \<and> fst col \<noteq> target_col \<and> 1 \<le> lag \<and> lag \<le> 30 \<and>
         valid_idx df_pct (snd col) lag \<noteq> [] \<and>
         r = emit_record df_pct (zip (index df_pct) tvals) col lag)) \<and>
   (distinct (index df_pct) \<longrightarrow>
      (\<forall>col lag. length (valid_idx df_pct (snd col) lag) < 2 \<longrightarrow>
         correlation (emit_record df_pct (zip (index df_pct) tvals) col lag) = NaN))"
  using lag_records_refines in_lag_records record_short_overlap by blast

lemma two_day_changes:
  "dropna (pct_change two_day_prices) =
     \<lparr>index = [2, 3],
      columns = [(''BIST100'', [Fin (1 / 10), Fin (- (1 / 10))]), (''Gold'', [Fin 1, Fin (- (1 / 2))])]\<rparr>"
  by (simp add: two_day_prices_def pct_change_def dropna_def select_rows_def row_ok_def pct_cell_def)

lemma shift_beyond: "int (length xs) \<le> k \<Longrightarrow> shift k xs = replicate (length xs) NaN"
  by (auto simp: shift_def Let_def min_def)

lemma valid_idx_beyond:
  assumes "int (length vals) \<le> lag"
  shows "valid_idx df_pct vals lag = []"
proof -
  have "filter (\<lambda>r. \<not> isna (snd r)) (zip idx (replicate n NaN)) = []" for idx :: "date list" and n
    by (auto simp: filter_empty_conv dest!: set_zip_rightD)
  then show ?thesis
    using assms by (simp add: valid_idx_def lagged_series_def shift_beyond index_intersection_def)
qed

theorem lag_records_emitted_witness:
  "distinct (index (dropna (pct_change two_day_prices))) \<and>
   valid_idx (dropna (pct_change two_day_prices)) [Fin 1, Fin (- (1 / 2))] 1 = [3] \<and>
   valid_idx (dropna (pct_change two_day_prices)) [Fin 1, Fin (- (1 / 2))] 2 = [] \<and>
   set (lag_records (dropna (pct_change two_day_prices))
          (zip (index (dropna (pct_change two_day_prices))) [Fin (1 / 10), Fin (- (1 / 10))]) ''BIST100'')
     = {\<lparr>variable = ''Gold'', lag_days = 1, correlation = NaN\<rparr>}"
proof -
  let ?dp = "dropna (pct_change two_day_prices)"
  let ?gold = "[Fin 1, Fin (- (1 / 2))]"
  let ?tv = "[Fin (1 / 10), Fin (- (1 / 10))]"
  let ?recs = "lag_records ?dp (zip (index ?dp) ?tv) ''BIST100''"
  note main = lag_records_emitted [of ?dp ?tv "''BIST100''"]
  have d: "distinct (index ?dp)" by (simp add: two_day_changes)
  have v1: "valid_idx ?dp ?gold 1 = [3]"
    by (simp add: two_day_changes valid_idx_def lagged_series_def shift_def index_intersection_def)
  have v2: "valid_idx ?dp ?gold lag = []" if "2 \<le> lag" for lag
    using that by (intro valid_idx_beyond) simp
  have gold: "(''Gold'', ?gold) \<in> set (columns ?dp)" by (simp add: two_day_changes)
  note p2 = main [THEN conjunct2, THEN conjunct1]
  note p3 = main [THEN conjunct2, THEN conjunct2]
  from p3 d have "\<forall>col lag. length (valid_idx ?dp (snd col) lag) < 2 \<longrightarrow>
      correlation (emit_record ?dp (zip (index ?dp) ?tv) col lag) = NaN"
    by (rule mp)
  then have "length (valid_idx ?dp (snd (''Gold'', ?gold)) 1) < 2 \<longrightarrow>
      correlation (emit_record ?dp (zip (index ?dp) ?tv) (''Gold'', ?gold) 1) = NaN"
    by blast
  then have nan: "correlation (emit_record ?dp (zip (index ?dp) ?tv) (''Gold'', ?gold) 1) = NaN"
    by (simp add: v1)
  then have e: "emit_record ?dp (zip (index ?dp) ?tv) (''Gold'', ?gold) 1 =
      \<lparr>variable = ''Gold'', lag_days = 1, correlation = NaN\<rparr>"
    by (simp add: emit_record_def)
  have "\<exists>col lag. col \<in> set (columns ?dp) \<and> fst col \<noteq> ''BIST100'' \<and> 1 \<le> lag \<and> lag \<le> 30 \<and>
      valid_idx ?dp (snd col) lag \<noteq> [] \<and>
      emit_record ?dp (zip (index ?dp) ?tv) (''Gold'', ?gold) 1 = emit_record ?dp (zip (index ?dp) ?tv) col lag"
    using gold v1 by (intro exI [of _ "(''Gold'', ?gold)"] exI [of _ 1]) simp
  then have "emit_record ?dp (zip (index ?dp) ?tv) (''Gold'', ?gold) 1 \<in> set ?recs"
    using p2 by blast
  with e have m: "\<lparr>variable = ''Gold'', lag_days = 1, correlation = NaN\<rparr> \<in> set ?recs" by simp
  have a: "r = \<lparr>variable = ''Gold'', lag_days = 1, correlation = NaN\<rparr>" if "r \<in> set ?recs" for r
  proof -
    from p2 that obtain col lag where c: "col \<in> set (columns ?dp)" and n: "fst col \<noteq> ''BIST100''"
      and l: "1 \<le> lag" and v: "valid_idx ?dp (snd col) lag \<noteq> []"
      and r: "r = emit_record ?dp (zip (index ?dp) ?tv) col lag"
      by blast
    from c n have col: "col = (''Gold'', ?gold)" by (auto simp: two_day_changes)
    with v v2 [of lag] l have "lag = 1" by (cases "2 \<le> lag") auto
    with r col e show ?thesis by simp
  qed
  from m a have "set ?recs = {\<lparr>variable = ''Gold'', lag_days = 1, correlation = NaN\<rparr>}"
    by blast
  with d v1 v2 [of 2] show ?thesis by simp
qed

text \<open>
  Claim C10. When the target column is present and the loops of
  \<open>analyze_lag_importance\<close> produce no record, the function raises the KeyError of the
  pivot on the empty record table instead of returning; no record is produced when the
  table has no column beside the target, and when no pair has a date overlap.
\<close>

theorem empty_records_raise:
  assumes tgt: "map_of (columns (dropna (pct_change df))) target_col = Some tvals"
  shows "(lag_records (dropna (pct_change df)) (zip (index (dropna (pct_change df))) tvals) target_col = []
            \<longrightarrow> analyze_lag_importance df target_col = Inl (KeyError ''variable'')) \<and>
         (other_cols (dropna (pct_change df)) target_col = []
            \<longrightarrow> lag_records (dropna (pct_change df)) (zip (index (dropna (pct_change df))) tvals) target_col = []) \<and>
         ((\<forall>col lag. valid_idx (dropna (pct_change df)) (snd col) lag = [])
            \<longrightarrow> lag_records (dropna (pct_change df)) (zip (index (dropna (pct_change df))) tvals) target_col = [])"
proof (intro conjI impI)
  assume "lag_records (dropna (pct_change df)) (zip (index (dropna (pct_change df))) tvals) target_col = []"
  then show "analyze_lag_importance df target_col = Inl (KeyError ''variable'')"
    by (simp add: analyze_lag_importance_def Let_def tgt pivot_def)
next
  assume "other_cols (dropna (pct_change df)) target_col = []"
  then show "lag_records (dropna (pct_change df)) (zip (index (dropna (pct_change df))) tvals) target_col = []"
    by (simp add: lag_records_def)
next
  assume "\<forall>col lag. valid_idx (dropna (pct_change df)) (snd col) lag = []"
  then show "lag_records (dropna (pct_change df)) (zip (index (dropna (pct_change df))) tvals) target_col = []"
    by (simp add: lag_records_concat)
qed

theorem empty_records_raise_witness:
  "map_of (columns (dropna (pct_change target_only_prices))) ''BIST100'' = Some [Fin (1 / 10), Fin (- (1 / 10))] \<and>
   other_cols (dropna (pct_change target_only_prices)) ''BIST100'' = [] \<and>
   analyze_lag_importance target_only_prices ''BIST100'' = Inl (KeyError ''variable'')"
proof -
  have dp: "dropna (pct_change target_only_prices) =
      \<lparr>index = [2, 3], columns = [(''BIST100'', [Fin (1 / 10), Fin (- (1 / 10))])]\<rparr>"
    by (simp add: target_only_prices_def pct_change_def dropna_def select_rows_def row_ok_def pct_cell_def)
  have h: "map_of (columns (dropna (pct_change target_only_prices))) ''BIST100'' = Some [Fin (1 / 10), Fin (- (1 / 10))]"
    by (simp add: dp)
  have o: "other_cols (dropna (pct_change target_only_prices)) ''BIST100'' = []"
    by (simp add: dp other_cols_def)
  from empty_records_raise [OF h] o
  have "analyze_lag_importance target_only_prices ''BIST100'' = Inl (KeyError ''variable'')"
    by blast
  with h o show ?thesis by simp
qed

section \<open>Properties of model selection and persistence\<close>

lemma select_best_snoc:
  "select_best train_model evaluate (ps @ [p]) =
     select_step train_model evaluate p (select_best train_model evaluate ps)"
  by (simp add: select_best_def)

lemma select_best_cases:
  fixes train_model :: "params \<Rightarrow> 'm" and evaluate :: "'m \<Rightarrow> real"
  defines "acc \<equiv> \<lambda>p. evaluate (train_model p)"
  shows "((\<forall>p \<in> set ps. acc p \<le> 0) \<and> select_best train_model evaluate ps = no_best) \<or>
         (\<exists>i < length ps.
            select_best train_model evaluate ps =
              \<lparr>best_accuracy = acc (ps ! i), best_params = Some (ps ! i),
               best_model = Some (train_model (ps ! i))\<rparr> \<and>
            0 < acc (ps ! i) \<and>
            (\<forall>j < length ps. acc (ps ! j) \<le> acc (ps ! i)) \<and>
            (\<forall>j < i. acc (ps ! j) < acc (ps ! i)))"
proof (induction ps rule: rev_induct)
  case Nil
  then show ?case by (simp add: select_best_def)
next
  case (snoc p ps)
  let ?sb = "select_best train_model evaluate"
  from snoc show ?case
  proof (elim disjE conjE exE)
    assume le: "\<forall>q \<in> set ps. acc q \<le> 0" and nb: "?sb ps = no_best"
    show ?thesis
    proof (cases "acc p > 0")
      case True
      have "?sb (ps @ [p]) = \<lparr>best_accuracy = acc p, best_params = Some p, best_model = Some (train_model p)\<rparr>"
        using True by (simp add: select_best_snoc nb select_step_def no_best_def acc_def Let_def)
      moreover have "\<forall>j < length (ps @ [p]). acc ((ps @ [p]) ! j) \<le> acc p"
        using le True by (auto simp: nth_append less_Suc_eq intro: order_trans [OF _ less_imp_le])
      moreover have "\<forall>j < length ps. acc ((ps @ [p]) ! j) < acc p"
        using le True by (auto simp: nth_append intro: le_less_trans)
      ultimately show ?thesis
        using True by (intro disjI2 exI [of _ "length ps"]) simp
    next
      case False
      then have "?sb (ps @ [p]) = no_best"
        by (simp add: select_best_snoc nb select_step_def no_best_def acc_def Let_def)
      with le False show ?thesis by auto
    qed
  next
    fix i
    assume i: "i < length ps"
      and eq: "?sb ps = \<lparr>best_accuracy = acc (ps ! i), best_params = Some (ps ! i),
               best_model = Some (train_model (ps ! i))\<rparr>"
      and pos: "0 < acc (ps ! i)"
      and all: "\<forall>j < length ps. acc (ps ! j) \<le> acc (ps ! i)"
      and before: "\<forall>j < i. acc (ps ! j) < acc (ps ! i)"
    show ?thesis
    proof (cases "acc p > acc (ps ! i)")
      case True
      have "?sb (ps @ [p]) = \<lparr>best_accuracy = acc p, best_params = Some p, best_model = Some (train_model p)\<rparr>"
        using True by (simp add: select_best_snoc eq select_step_def acc_def Let_def)
      moreover have "\<forall>j < length (ps @ [p]). acc ((ps @ [p]) ! j) \<le> acc p"
        using all True by (auto simp: nth_append less_Suc_eq intro: order_trans [OF _ less_imp_le])
      moreover have "\<forall>j < length ps. acc ((ps @ [p]) ! j) < acc p"
        using all True by (auto simp: nth_append intro: le_less_trans)
      moreover have "0 < acc p" using pos True by simp
      ultimately show ?thesis
        by (intro disjI2 exI [of _ "length ps"]) simp
    next
      case False
      have "?sb (ps @ [p]) = \<lparr>best_accuracy = acc (ps ! i), best_params = Some (ps ! i),
               best_model = Some (train_model (ps ! i))\<rparr>"
        using False by (simp add: select_best_snoc eq select_step_def acc_def Let_def)
      moreover have "\<forall>j < length (ps @ [p]). acc ((ps @ [p]) ! j) \<le> acc (ps ! i)"
        using all False by (auto simp: nth_append less_Suc_eq)
      ultimately show ?thesis
        using i pos before by (intro disjI2 exI [of _ i]) (simp add: nth_append)
    qed
  qed
qed

lemma fst_train_with_different_params:
  "fst (train_with_different_params (Some d) train accuracy verbose st) =
     select_best (train d) (accuracy d) param_combinations"
  by (simp add: train_with_different_params_def Let_def split: option.splits)

lemma select_step_strict:
  "(select_step train_model evaluate p b \<noteq> b \<longrightarrow> best_accuracy b < evaluate (train_model p)) \<and>
   (evaluate (train_model p) \<le> best_accuracy b \<longrightarrow> select_step train_model evaluate p b = b)"
  by (simp add: select_step_def Let_def)

text \<open>
  Claim C5, as amended. When at least one of the five candidates has a held-out accuracy
  above 0, \<open>train_with_different_params\<close> returns the candidate at the first list
  position whose accuracy is greatest: no candidate has a greater accuracy and every
  earlier candidate has a strictly smaller one. A step of the loop replaces the current
  best only when the new accuracy is strictly greater, never when it is equal or smaller.
\<close>

theorem best_candidate_selected:
  assumes "\<exists>p \<in> set param_combinations. 0 < accuracy d (train d p)"
  shows "(\<exists>i < length param_combinations.
            fst (train_with_different_params (Some d) train accuracy verbose st) =
              \<lparr>best_accuracy = accuracy d (train d (param_combinations ! i)),
               best_params = Some (param_combinations ! i),
               best_model = Some (train d (param_combinations ! i))\<rparr> \<and>
            (\<forall>j < length param_combinations.
               accuracy d (train d (param_combinations ! j)) \<le> accuracy d (train d (param_combinations ! i))) \<and>
            (\<forall>j < i.
               accuracy d (train d (param_combinations ! j)) < accuracy d (train d (param_combinations ! i)))) \<and>
         (\<forall>p b. (select_step (train d) (accuracy d) p b \<noteq> b \<longrightarrow> best_accuracy b < accuracy d (train d p)) \<and>
                (accuracy d (train d p) \<le> best_accuracy b \<longrightarrow> select_step (train d) (accuracy d) p b = b))"
proof -
  from assms have "\<not> (\<forall>p \<in> set param_combinations. accuracy d (train d p) \<le> 0)"
    by (auto simp: not_le)
  with select_best_cases [of param_combinations "accuracy d" "train d"]
  have "\<exists>i < length param_combinations.
            select_best (train d) (accuracy d) param_combinations =
              \<lparr>best_accuracy = accuracy d (train d (param_combinations ! i)),
               best_params = Some (param_combinations ! i),
               best_model = Some (train d (param_combinations ! i))\<rparr> \<and>
            0 < accuracy d (train d (param_combinations ! i)) \<and>
            (\<forall>j < length param_combinations.
               accuracy d (train d (param_combinations ! j)) \<le> accuracy d (train d (param_combinations ! i))) \<and>
            (\<forall>j < i.
               accuracy d (train d (param_combinations ! j)) < accuracy d (train d (param_combinations ! i)))"
    by blast
  then show ?thesis
    unfolding fst_train_with_different_params using select_step_strict by blast
qed

lemma tied_accuracies:
  "tied_accuracy () (identity_trainer () (param_combinations ! 0)) = 1 / 2"
  "tied_accuracy () (identity_trainer () (param_combinations ! 1)) = 6 / 10"
  "tied_accuracy () (identity_trainer () (param_combinations ! Suc 0)) = 6 / 10"
  "tied_accuracy () (identity_trainer () (param_combinations ! 2)) = 1 / 2"
  "tied_accuracy () (identity_trainer () (param_combinations ! 3)) = 6 / 10"
  "tied_accuracy () (identity_trainer () (param_combinations ! 4)) = 1 / 2"
  by (simp_all add: tied_accuracy_def identity_trainer_def param_combinations_def)

theorem best_candidate_selected_witness:
  "0 < tied_accuracy () (identity_trainer () (param_combinations ! 0)) \<and>
   tied_accuracy () (identity_trainer () (param_combinations ! 1)) =
     tied_accuracy () (identity_trainer () (param_combinations ! 3)) \<and>
   best_params (fst (train_with_different_params (Some ()) identity_trainer tied_accuracy True empty_store))
     = Some (param_combinations ! 1)"
proof -
  have len: "length param_combinations = 5" by (simp add: param_combinations_def)
  have h0: "0 < tied_accuracy () (identity_trainer () (param_combinations ! 0))"
    by (simp add: tied_accuracies)
  then have h: "\<exists>p \<in> set param_combinations. 0 < tied_accuracy () (identity_trainer () p)"
    by (metis len nth_mem zero_less_numeral)
  from best_candidate_selected [where accuracy = tied_accuracy and d = "()" and train = identity_trainer
      and verbose = True and st = empty_store, OF h]
  obtain i where i: "i < 5"
    and eq: "fst (train_with_different_params (Some ()) identity_trainer tied_accuracy True empty_store) =
              \<lparr>best_accuracy = tied_accuracy () (identity_trainer () (param_combinations ! i)),
               best_params = Some (param_combinations ! i),
               best_model = Some (identity_trainer () (param_combinations ! i))\<rparr>"
    and all: "\<forall>j < 5. tied_accuracy () (identity_trainer () (param_combinations ! j))
                 \<le> tied_accuracy () (identity_trainer () (param_combinations ! i))"
    and before: "\<forall>j < i. tied_accuracy () (identity_trainer () (param_combinations ! j))
                 < tied_accuracy () (identity_trainer () (param_combinations ! i))"
    unfolding len by blast
  from i consider "i = 0" | "i = 1" | "i = 2" | "i = 3" | "i = 4" by linarith
  then have "i = 1"
  proof cases
    case 1
    with all [rule_format, of 1] show ?thesis by (simp add: tied_accuracies)
  next
    case 2
    then show ?thesis .
  next
    case 3
    with all [rule_format, of 1] show ?thesis by (simp add: tied_accuracies)
  next
    case 4
    with before [rule_format, of 1] show ?thesis by (simp add: tied_accuracies)
  next
    case 5
    with all [rule_format, of 1] show ?thesis by (simp add: tied_accuracies)
  qed
  with eq h0 show ?thesis by (simp add: tied_accuracies)
qed

text \<open>
  The claim as stated fails when every candidate has the accuracy 0: the loop starts from
  the accuracy 0 with no model, no candidate is strictly better, and none is retained,
  not even the first of the tied candidates.
\<close>

theorem best_candidate_selected_counterexample:
  "best_model (fst (train_with_different_params (Some ()) identity_trainer zero_accuracy True empty_store)) = None \<and>
   best_params (fst (train_with_different_params (Some ()) identity_trainer zero_accuracy True empty_store)) = None"
  by (simp add: fst_train_with_different_params select_best_def param_combinations_def
      select_step_def zero_accuracy_def no_best_def)

lemma persisted_when_verbose:
  assumes "best_model (select_best (train d) (accuracy d) param_combinations) = Some m"
  shows "bist_model_file (snd (train_with_different_params (Some d) train accuracy True st)) = Some m"
  using assms by (simp add: train_with_different_params_def Let_def save_model_def)

lemma below_threshold_is_reported:
  assumes "best_model (select_best (train d) (accuracy d) param_combinations) = Some m"
    and "\<not> best_accuracy (select_best (train d) (accuracy d) param_combinations) > 55 / 100"
  shows "printed (snd (train_with_different_params (Some d) train accuracy True st)) =
           printed st @ [SavedBelowCriterion]"
  using assms by (simp add: train_with_different_params_def Let_def save_model_def)

lemma train_and_evaluate_model_saves:
  "current_model_file (snd (train_and_evaluate_model (Some d) train accuracy n st)) = Some (train d n)"
  by (simp add: train_and_evaluate_model_def Let_def)

lemma quiet_run_writes_nothing:
  "snd (train_with_different_params data_file train accuracy False st) = st"
  by (simp add: train_with_different_params_def Let_def split: option.splits)

text \<open>
  Claim C6 at a failing input. With \<open>verbose=False\<close> the selector returns its best model
  (here the first candidate, accuracy 1/2) and leaves the model file unwritten; the same
  run with \<open>verbose=True\<close> writes it, although the accuracy is below 0.55.
\<close>

theorem best_model_not_saved_when_quiet:
  "best_model (fst (train_with_different_params (Some ()) identity_trainer half_accuracy False empty_store))
     = Some (param_combinations ! 0) \<and>
   bist_model_file (snd (train_with_different_params (Some ()) identity_trainer half_accuracy False empty_store))
     = None \<and>
   bist_model_file (snd (train_with_different_params (Some ()) identity_trainer half_accuracy True empty_store))
     = Some (param_combinations ! 0)"
  by (simp add: train_with_different_params_def select_best_def param_combinations_def
      select_step_def half_accuracy_def identity_trainer_def no_best_def empty_store_def
      save_model_def Let_def)

section \<open>Properties of prediction serving\<close>

lemma zero_filled_fold:
  assumes "length acc = k + length fs" and "\<forall>i. k \<le> i \<and> i < length acc \<longrightarrow> acc ! i = Fin 0"
  shows "fold (\<lambda>(i, feat) features.
             case map_of row feat of Some v \<Rightarrow> features[i := v] | None \<Rightarrow> features)
           (enumerate k fs) acc = take k acc @ map (zero_fill row) fs"
  using assms
proof (induction fs arbitrary: k acc)
  case Nil
  then show ?case by simp
next
  case (Cons f fs)
  let ?acc' = "acc[k := zero_fill row f]"
  have k: "k < length acc" using Cons.prems(1) by simp
  have step: "(case map_of row f of Some v \<Rightarrow> acc[k := v] | None \<Rightarrow> acc) = ?acc'"
  proof (cases "map_of row f")
    case None
    moreover have "acc ! k = Fin 0" using Cons.prems(2) k by simp
    ultimately show ?thesis by (simp add: zero_fill_def) (metis list_update_id)
  next
    case (Some v)
    then show ?thesis by (simp add: zero_fill_def)
  qed
  have "fold (\<lambda>(i, feat) features.
             case map_of row feat of Some v \<Rightarrow> features[i := v] | None \<Rightarrow> features)
           (enumerate (Suc k) fs) ?acc' = take (Suc k) ?acc' @ map (zero_fill row) fs"
    using Cons.prems by (intro Cons.IH) simp_all
  moreover have "take (Suc k) ?acc' = take k acc @ [zero_fill row f]"
    using k by (simp add: take_Suc_conv_app_nth)
  ultimately show ?case by (simp add: step)
qed

lemma zero_filled_map: "zero_filled feats row = map (zero_fill row) feats"
  unfolding zero_filled_def
  using zero_filled_fold [of "replicate (length feats) (Fin 0)" 0 feats row] by simp

lemma map_filter_all_present:
  assumes "list_all (\<lambda>feat. feat \<in> set (map fst row)) feats"
  shows "List.map_filter (map_of row) feats = map (zero_fill row) feats"
  using assms
proof (induction feats)
  case Nil
  then show ?case by (simp add: List.map_filter_simps)
next
  case (Cons f fs)
  from Cons.prems have "f \<in> fst ` set row" by simp
  then have "map_of row f \<noteq> None" by (simp add: map_of_eq_None_iff)
  then obtain v where "map_of row f = Some v" by blast
  with Cons show ?case by (simp add: List.map_filter_simps zero_fill_def)
qed

lemma columns_daily_change:
  "columns (daily_change raw_data) =
     map (\<lambda>(n, v). (n, tl (map (\<lambda>x. fmul_const x 100) (pct_change_series (drop (length v - 5) v)))))
       (columns raw_data)"
  by (simp add: daily_change_def Let_def pct_change_def tail_def case_prod_unfold comp_def)

lemma serving_prices_tiles:
  "metric_tiles (daily_change serving_prices) [''BIST100'', ''Gold'', ''Oil'', ''USDTRY''] = Inr ()"
  by (simp add: columns_daily_change serving_prices_def)

lemma last_row_serving_prices:
  "last_row (daily_change serving_prices) =
     [(''BIST100'', Fin (- 10)), (''Gold'', Fin (- 50)), (''Oil'', Fin 10), (''USDTRY'', Fin 0)]"
  by (simp add: last_row_def columns_daily_change serving_prices_def pct_cell_def)

lemma serving_features_zero_fill:
  "feats \<noteq> [] \<Longrightarrow> serving_features (Some feats) row = map (zero_fill row) feats"
  by (simp add: serving_features_def zero_filled_map map_filter_all_present)

text \<open>
  Claim C7, as amended. For every non-empty stored feature-name list the served vector
  has, in the order of the list, the value of the change row for each stored name and
  0.0 for each stored name that the row lacks; and once the metric tiles are drawn the
  prediction input is this vector, whatever names are missing.
\<close>

theorem served_vector_matches_stored_list:
  assumes "feats \<noteq> []"
  shows "serving_features (Some feats) row = map (zero_fill row) feats \<and>
         (metric_tiles (daily_change raw_data) [''BIST100'', ''Gold'', ''Oil'', ''USDTRY''] = Inr ()
            \<longrightarrow> prediction_input raw_data (Some feats) =
                  Inr (map (zero_fill (last_row (daily_change raw_data))) feats))"
proof -
  have "serving_features (Some feats) r = map (zero_fill r) feats" for r
    using assms by (rule serving_features_zero_fill)
  then show ?thesis
    by (simp add: prediction_input_def Let_def)
qed

theorem served_vector_matches_stored_list_witness:
  "[''Gold_change'', ''Oil_change''] \<noteq> [] \<and>
   serving_features (Some [''Gold_change'', ''Oil_change'']) gold_only_row = [Fin (3 / 2), Fin 0] \<and>
   metric_tiles (daily_change serving_prices) [''BIST100'', ''Gold'', ''Oil'', ''USDTRY''] = Inr () \<and>
   prediction_input serving_prices (Some [''Gold_change'', ''Oil_change'']) = Inr [Fin 0, Fin 0] \<and>
   prediction_input serving_prices (Some [''Oil'', ''Oil_change'']) = Inr [Fin 10, Fin 0]"
proof -
  have h: "[''Gold_change'', ''Oil_change''] \<noteq> []" by simp
  have h': "[''Oil'', ''Oil_change''] \<noteq> []" by simp
  from served_vector_matches_stored_list [OF h, of gold_only_row]
  have "serving_features (Some [''Gold_change'', ''Oil_change'']) gold_only_row =
          map (zero_fill gold_only_row) [''Gold_change'', ''Oil_change'']"
    by blast
  then have a: "serving_features (Some [''Gold_change'', ''Oil_change'']) gold_only_row = [Fin (3 / 2), Fin 0]"
    by (simp add: zero_fill_def gold_only_row_def)
  from served_vector_matches_stored_list [OF h, of _ serving_prices] serving_prices_tiles
  have "prediction_input serving_prices (Some [''Gold_change'', ''Oil_change'']) =
          Inr (map (zero_fill (last_row (daily_change serving_prices))) [''Gold_change'', ''Oil_change''])"
    by blast
  then have b: "prediction_input serving_prices (Some [''Gold_change'', ''Oil_change'']) = Inr [Fin 0, Fin 0]"
    by (simp add: last_row_serving_prices zero_fill_def)
  from served_vector_matches_stored_list [OF h', of _ serving_prices] serving_prices_tiles
  have "prediction_input serving_prices (Some [''Oil'', ''Oil_change'']) =
          Inr (map (zero_fill (last_row (daily_change serving_prices))) [''Oil'', ''Oil_change''])"
    by blast
  then have c: "prediction_input serving_prices (Some [''Oil'', ''Oil_change'']) = Inr [Fin 10, Fin 0]"
    by (simp add: last_row_serving_prices zero_fill_def)
  from h a serving_prices_tiles b c show ?thesis by (intro conjI)
qed

text \<open>
  The claim as stated fails for the empty stored list: Python treats it like a missing
  list, and the served vector is the whole change row instead of the empty vector.
\<close>

theorem served_vector_matches_stored_list_counterexample:
  "serving_features (Some []) gold_only_row = [Fin (3 / 2)] \<and>
   serving_features (Some []) gold_only_row \<noteq> map (zero_fill gold_only_row) []"
  by (simp add: serving_features_def gold_only_row_def)

lemma last_change_of_series:
  assumes "2 \<le> length qs"
  shows "tl (map (\<lambda>x. fmul_const x 100) (pct_change_series qs)) \<noteq> [] \<and>
         last (tl (map (\<lambda>x. fmul_const x 100) (pct_change_series qs))) =
           pct_points (qs ! (length qs - 2)) (qs ! (length qs - 1))"
proof -
  from assms obtain x xs where qs: "qs = x # xs"
    by (cases qs) auto
  with assms have ne: "xs \<noteq> []" by auto
  let ?cs = "map2 pct_cell (butlast (x # xs)) xs"
  have len: "length ?cs = length xs" by simp
  have t: "tl (map (\<lambda>x. fmul_const x 100) (pct_change_series qs)) = map (\<lambda>x. fmul_const x 100) ?cs"
    by (simp add: qs del: butlast.simps)
  have cne: "?cs \<noteq> []" using ne len by (metis length_0_conv)
  have j: "length xs - 1 < length xs" using ne by simp
  have "last (map (\<lambda>x. fmul_const x 100) ?cs) = fmul_const (last ?cs) 100"
    using cne by (rule last_map)
  also have "last ?cs = ?cs ! (length xs - 1)"
    using last_conv_nth [OF cne] unfolding len .
  also have "?cs ! (length xs - 1) = pct_cell (butlast (x # xs) ! (length xs - 1)) (xs ! (length xs - 1))"
    using j by (simp del: butlast.simps)
  also have "butlast (x # xs) ! (length xs - 1) = (x # xs) ! (length xs - 1)"
    using j by (simp add: nth_butlast del: butlast.simps)
  finally have L: "last (map (\<lambda>x. fmul_const x 100) ?cs) =
      pct_points ((x # xs) ! (length xs - 1)) (xs ! (length xs - 1))"
    by (simp only: pct_points_def)
  have e1: "xs ! (length xs - 1) = qs ! (length qs - 1)"
    using ne unfolding qs by (cases xs) simp_all
  have e2: "(x # xs) ! (length xs - 1) = qs ! (length qs - 2)"
    unfolding qs by simp
  have "map (\<lambda>x. fmul_const x 100) ?cs \<noteq> []"
    using cne by simp
  moreover have "last (map (\<lambda>x. fmul_const x 100) ?cs) =
      pct_points (qs ! (length qs - 2)) (qs ! (length qs - 1))"
    using L unfolding e1 e2 .
  ultimately show ?thesis
    unfolding t by (rule conjI)
qed

lemma last_change_of_tail:
  assumes "2 \<le> length ps"
  shows "tl (map (\<lambda>x. fmul_const x 100) (pct_change_series (drop (length ps - 5) ps))) \<noteq> [] \<and>
         last (tl (map (\<lambda>x. fmul_const x 100) (pct_change_series (drop (length ps - 5) ps)))) =
           pct_points (ps ! (length ps - 2)) (ps ! (length ps - 1))"
proof -
  let ?qs = "drop (length ps - 5) ps"
  have l: "2 \<le> length ?qs" using assms by simp
  have a: "?qs ! (length ?qs - 2) = ps ! (length ps - 2)"
    using assms by (simp add: nth_drop)
  have b: "?qs ! (length ?qs - 1) = ps ! (length ps - 1)"
    using assms by (simp add: nth_drop)
  from last_change_of_series [OF l] a b show ?thesis by simp
qed

lemma last_row_daily_change:
  assumes wf: "wf_frame raw_data" and two: "2 \<le> nrows raw_data"
  shows "last_row (daily_change raw_data) =
           map (\<lambda>(n, v). (n, pct_points (v ! (nrows raw_data - 2)) (v ! (nrows raw_data - 1))))
             (columns raw_data)"
proof -
  let ?m = "\<lambda>v. tl (map (\<lambda>x. fmul_const x 100) (pct_change_series (drop (length v - 5) v)))"
  have each: "(if ?m (snd c) = [] then [] else [(fst c, last (?m (snd c)))]) =
      [(fst c, pct_points (snd c ! (nrows raw_data - 2)) (snd c ! (nrows raw_data - 1)))]"
    if "c \<in> set (columns raw_data)" for c
  proof -
    from wf that have "length (snd c) = nrows raw_data"
      by (auto simp: wf_frame_def list_all_iff)
    with two last_change_of_tail [of "snd c"] show ?thesis by simp
  qed
  have "last_row (daily_change raw_data) =
      concat (map (\<lambda>c. if ?m (snd c) = [] then [] else [(fst c, last (?m (snd c)))]) (columns raw_data))"
    by (simp add: last_row_def columns_daily_change case_prod_unfold comp_def cong: if_cong)
  also have "\<dots> = concat (map (\<lambda>c. [(fst c, pct_points (snd c ! (nrows raw_data - 2)) (snd c ! (nrows raw_data - 1)))])
      (columns raw_data))"
    using each by (intro arg_cong [where f = concat] map_cong) simp_all
  finally show ?thesis by (simp add: case_prod_unfold)
qed

text \<open>
  The vector that tab 2 hands to the model: for a well-formed price table with at least
  two rows and a non-empty stored feature list, it holds, for each stored name that is a
  column of the price table, the change of the last two prices in percent, and 0.0 for
  every other name. No fitted mean or scale enters it.
\<close>

lemma prediction_input_percent_changes:
  assumes wf: "wf_frame raw_data" and two: "2 \<le> nrows raw_data" and ne: "feats \<noteq> []"
    and tiles: "metric_tiles (daily_change raw_data) [''BIST100'', ''Gold'', ''Oil'', ''USDTRY''] = Inr ()"
  shows "prediction_input raw_data (Some feats) =
           Inr (map (\<lambda>feat. case map_of (columns raw_data) feat of
                               Some ps \<Rightarrow> pct_points (ps ! (nrows raw_data - 2)) (ps ! (nrows raw_data - 1))
                             | None \<Rightarrow> Fin 0) feats)"
proof -
  let ?f = "\<lambda>v. pct_points (v ! (nrows raw_data - 2)) (v ! (nrows raw_data - 1))"
  have row: "last_row (daily_change raw_data) = map (\<lambda>(n, v). (n, ?f v)) (columns raw_data)"
    using wf two by (rule last_row_daily_change)
  have "zero_fill (last_row (daily_change raw_data)) feat =
      (case map_of (columns raw_data) feat of Some ps \<Rightarrow> ?f ps | None \<Rightarrow> Fin 0)" for feat
    unfolding row zero_fill_def map_of_map by (simp split: option.splits)
  then have "serving_features (Some feats) (last_row (daily_change raw_data)) =
      map (\<lambda>feat. case map_of (columns raw_data) feat of Some ps \<Rightarrow> ?f ps | None \<Rightarrow> Fin 0) feats"
    using ne by (simp add: serving_features_zero_fill)
  then show ?thesis
    by (simp add: prediction_input_def Let_def tiles del: metric_tiles.simps)
qed

text \<open>
  The preparation of \<open>pipeline_prices\<close>, evaluated: the feature table has two rows, so
  the standard deviation of a column is half the distance of its two values.
\<close>

lemma mean_pair: "mean [a, b] = (a + b) / 2"
  by (simp add: mean_def)

lemma std_dev_pair: "std_dev [a, b] = \<bar>a - b\<bar> / 2"
proof -
  have "sum_list (map (\<lambda>x. (x - mean [a, b]) * (x - mean [a, b])) [a, b]) / real (length [a, b])
      = ((a - b) / 2) * ((a - b) / 2)"
    by (simp add: mean_pair field_simps)
  then have "std_dev [a, b] = sqrt (((a - b) / 2) * ((a - b) / 2))"
    unfolding std_dev_def by (simp only:)
  also have "\<dots> = \<bar>(a - b) / 2\<bar>" by (rule real_sqrt_abs2)
  also have "\<dots> = \<bar>a - b\<bar> / 2" by simp
  finally show ?thesis .
qed

lemma pipeline_change_table:
  "change_table pipeline_prices =
     \<lparr>index = [2, 3, 4],
      columns = [(''BIST100_change'', [Fin (1 / 10), Fin (- (1 / 10)), Fin 1]),
                 (''Gold_change'', [Fin 1, Fin (- (1 / 2)), Fin (- (1 / 2))]),
                 (''Oil_change'', [Fin 0, Fin (1 / 10), Fin 0]),
                 (''USDTRY_change'', [Fin 0, Fin 0, Fin (1 / 10)])]\<rparr>"
  by (simp add: change_table_def rename_change_def pipeline_prices_def pct_change_def dropna_def
      select_rows_def row_ok_def pct_cell_def)

lemma pipeline_xy:
  "prepare_xy pipeline_prices False [] =
     Inr (pipeline_X, [(2, 0), (3, 1)])"
  by (simp add: prepare_xy_def pipeline_change_table Let_def)
     (simp add: make_target_def pipeline_prices_def label_of_def index_intersection_def
       loc_frame_def loc_def pipeline_X_def)

lemma pipeline_fit:
  "fit_transform pipeline_X =
     Inr (\<lparr>sc_mean = [0, 1 / 4, 1 / 20, 0], sc_scale = [1 / 10, 3 / 4, 1 / 20, 1]\<rparr>,
          [[1, 1, - 1, 0], [- 1, - 1, 1, 0]])"
proof -
  have fin: "list_all (\<lambda>c. list_all (\<lambda>v. fin_val v \<noteq> None) (snd c)) (columns pipeline_X)"
    by (simp add: pipeline_X_def del: not_None_eq)
  have rows: "nrows pipeline_X = 2" by (simp add: pipeline_X_def nrows_def)
  have cols: "map (\<lambda>c. List.map_filter fin_val (snd c)) (columns pipeline_X) =
      [[1 / 10, - (1 / 10)], [1, - (1 / 2)], [0, 1 / 10], [0, 0]]"
    by (simp add: pipeline_X_def List.map_filter_simps)
  have sc: "fit [[1 / 10, - (1 / 10)], [1, - (1 / 2)], [0, 1 / 10], [0, 0 :: real]] =
      \<lparr>sc_mean = [0, 1 / 4, 1 / 20, 0], sc_scale = [1 / 10, 3 / 4, 1 / 20, 1]\<rparr>"
    by (simp add: fit_def mean_pair std_dev_pair)
  have up: "[0..<2] = [0, 1]" by (simp add: upt_rec)
  have tr: "map (\<lambda>i. transform \<lparr>sc_mean = [0, 1 / 4, 1 / 20, 0], sc_scale = [1 / 10, 3 / 4, 1 / 20, 1]\<rparr>
        (map (\<lambda>c. c ! i) [[1 / 10, - (1 / 10)], [1, - (1 / 2)], [0, 1 / 10], [0, 0 :: real]])) [0, 1] =
      [[1, 1, - 1, 0], [- 1, - 1, 1, 0]]"
    by (simp add: transform_def)
  have ne: "columns pipeline_X \<noteq> []" by (simp add: pipeline_X_def)
  show ?thesis
    unfolding fit_transform_def Let_def cols sc rows up tr using fin ne by simp
qed

lemma pipeline_tiles:
  "metric_tiles (daily_change pipeline_prices) [''BIST100'', ''Gold'', ''Oil'', ''USDTRY''] = Inr ()"
  by (simp add: columns_daily_change pipeline_prices_def)

lemma last_row_pipeline_prices:
  "last_row (daily_change pipeline_prices) =
     [(''BIST100'', Fin 100), (''Gold'', Fin (- 50)), (''Oil'', Fin 0), (''USDTRY'', Fin 10)]"
  by (simp add: last_row_def columns_daily_change pipeline_prices_def pct_cell_def)

text \<open>
  Claim C8 at a failing input. On \<open>pipeline_prices\<close> data preparation fits the scaler
  with the means 0, 1/4, 1/20, 0 and the scales 1/10, 3/4, 1/20, 1, writes the
  standardized features, on which the model is trained, and names them
  \<open>BIST100_change\<close> to \<open>USDTRY_change\<close>. Applying this scaler to the change row of the
  latest day, as the claim asks, gives 10, -1, -1, 1/10. The serving path hands the model
  four zeros for the stored names, since none of them is a column of its change row, and
  the raw changes in percent 100, -50, 0, 10 for the names of the price columns: in
  neither case the standardized row.
\<close>

theorem served_vector_not_standardized:
  "prepare_data pipeline_prices False [] =
     Inr ([[1, 1, - 1, 0], [- 1, - 1, 1, 0]], [0, 1],
          \<lparr>sc_mean = [0, 1 / 4, 1 / 20, 0], sc_scale = [1 / 10, 3 / 4, 1 / 20, 1]\<rparr>,
          [''BIST100_change'', ''Gold_change'', ''Oil_change'', ''USDTRY_change'']) \<and>
   prepare_training_data pipeline_prices =
     Inr (pipeline_X, [(2, 0), (3, 1)], [[1, 1, - 1, 0], [- 1, - 1, 1, 0]]) \<and>
   standardized_serving \<lparr>sc_mean = [0, 1 / 4, 1 / 20, 0], sc_scale = [1 / 10, 3 / 4, 1 / 20, 1]\<rparr>
       pipeline_prices = [Fin 10, Fin (- 1), Fin (- 1), Fin (1 / 10)] \<and>
   prediction_input pipeline_prices
       (Some [''BIST100_change'', ''Gold_change'', ''Oil_change'', ''USDTRY_change'']) =
     Inr [Fin 0, Fin 0, Fin 0, Fin 0] \<and>
   prediction_input pipeline_prices (Some [''BIST100'', ''Gold'', ''Oil'', ''USDTRY'']) =
     Inr [Fin 100, Fin (- 50), Fin 0, Fin 10]"
proof -
  have a: "prepare_data pipeline_prices False [] =
     Inr ([[1, 1, - 1, 0], [- 1, - 1, 1, 0]], [0, 1],
          \<lparr>sc_mean = [0, 1 / 4, 1 / 20, 0], sc_scale = [1 / 10, 3 / 4, 1 / 20, 1]\<rparr>,
          [''BIST100_change'', ''Gold_change'', ''Oil_change'', ''USDTRY_change''])"
    by (simp add: prepare_data_def pipeline_xy pipeline_fit) (simp add: pipeline_X_def column_names_def)
  have b: "prepare_training_data pipeline_prices =
     Inr (pipeline_X, [(2, 0), (3, 1)], [[1, 1, - 1, 0], [- 1, - 1, 1, 0]])"
    by (simp add: prepare_training_data_def pipeline_xy pipeline_fit)
  have c: "standardized_serving \<lparr>sc_mean = [0, 1 / 4, 1 / 20, 0], sc_scale = [1 / 10, 3 / 4, 1 / 20, 1]\<rparr>
       pipeline_prices = [Fin 10, Fin (- 1), Fin (- 1), Fin (1 / 10)]"
    by (simp add: standardized_serving_def pipeline_change_table last_row_def
        List.map_filter_simps transform_def)
  have d: "prediction_input pipeline_prices
       (Some [''BIST100_change'', ''Gold_change'', ''Oil_change'', ''USDTRY_change'']) =
     Inr [Fin 0, Fin 0, Fin 0, Fin 0]"
    unfolding prediction_input_def Let_def pipeline_tiles last_row_pipeline_prices
    by (simp add: serving_features_zero_fill zero_fill_def)
  have e: "prediction_input pipeline_prices (Some [''BIST100'', ''Gold'', ''Oil'', ''USDTRY'']) =
     Inr [Fin 100, Fin (- 50), Fin 0, Fin 10]"
    unfolding prediction_input_def Let_def pipeline_tiles last_row_pipeline_prices
    by (simp add: serving_features_zero_fill zero_fill_def)
  from a b c d e show ?thesis by (intro conjI)
qed

section \<open>Properties of data acquisition\<close>

lemma keys_assign_new: "k \<notin> set (map fst kvs) \<Longrightarrow> map fst (assign k v kvs) = map fst kvs @ [k]"
  by (simp add: assign_def)

lemma keys_fetch_step:
  assumes "fst entry \<notin> set (map fst acc)"
  shows "map fst (fetch_step yf entry acc) =
           map fst acc @ (if retrieved yf entry then [fst entry] else [])"
  using assms
  by (auto simp: fetch_step_def retrieved_def keys_assign_new split: option.splits)

lemma keys_fetch_fold:
  assumes "distinct (map fst acc @ map fst symbols)"
  shows "map fst (fold (fetch_step yf) symbols acc) =
           map fst acc @ map fst (filter (retrieved yf) symbols)"
  using assms
proof (induction symbols arbitrary: acc)
  case Nil
  then show ?case by simp
next
  case (Cons e es)
  from Cons.prems have new: "fst e \<notin> set (map fst acc)" by auto
  have k: "map fst (fetch_step yf e acc) = map fst acc @ (if retrieved yf e then [fst e] else [])"
    using new by (rule keys_fetch_step)
  have "distinct (map fst (fetch_step yf e acc) @ map fst es)"
    using Cons.prems by (auto simp: k)
  from Cons.IH [OF this] show ?case by (simp add: k)
qed

lemma keys_fetch_all:
  "distinct (map fst symbols) \<Longrightarrow>
   map fst (fetch_all yf symbols) = map fst (filter (retrieved yf) symbols)"
  using keys_fetch_fold [of "[]" symbols yf] by (simp add: fetch_all_def)

lemma column_names_set_series:
  assumes "name \<notin> set (column_names df)"
  shows "column_names (set_series name s df) = column_names df @ [name]"
proof -
  have "name \<notin> set (map fst (map (\<lambda>(n, v). (n, replicate (length s) NaN)) (columns df)))"
    using assms by (simp add: column_names_def case_prod_unfold comp_def)
  then have "map fst (assign name (map snd s) (map (\<lambda>(n, v). (n, replicate (length s) NaN)) (columns df)))
      = map fst (columns df) @ [name]"
    by (simp add: keys_assign_new case_prod_unfold comp_def)
  then show ?thesis
    using assms by (simp add: set_series_def column_names_def keys_assign_new)
qed

lemma column_names_merge_fold:
  assumes "distinct (column_names df @ map fst data_frames)"
  shows "column_names (fold (\<lambda>(name, series) df. set_series name series df) data_frames df) =
           column_names df @ map fst data_frames"
  using assms
proof (induction data_frames arbitrary: df)
  case Nil
  then show ?case by simp
next
  case (Cons p ps)
  obtain name s where p: "p = (name, s)" by (cases p)
  from Cons.prems p have new: "name \<notin> set (column_names df)" by auto
  note k = column_names_set_series [OF new, of s]
  have "distinct (column_names (set_series name s df) @ map fst ps)"
    using Cons.prems p by (auto simp: k)
  from Cons.IH [OF this] show ?case by (simp add: p k)
qed

lemma column_names_merge_frames:
  "distinct (map fst data_frames) \<Longrightarrow> column_names (merge_frames data_frames) = map fst data_frames"
  using column_names_merge_fold [of "\<lparr>index = [], columns = []\<rparr>" data_frames]
  by (simp add: merge_frames_def column_names_def)

lemma column_names_fill_gaps: "column_names (fill_gaps df) = column_names df"
  by (simp add: fill_gaps_def column_names_def case_prod_unfold comp_def)

lemma column_names_fetched:
  assumes "distinct (map fst symbols)"
  shows "column_names (fill_gaps (merge_frames (fetch_all yf symbols))) =
           map fst (filter (retrieved yf) symbols)"
proof -
  have "distinct (map fst (filter (retrieved yf) symbols))"
    using assms by (rule distinct_map_filter)
  then have "distinct (map fst (fetch_all yf symbols))"
    by (simp add: keys_fetch_all [OF assms])
  then show ?thesis
    by (simp add: column_names_fill_gaps column_names_merge_frames keys_fetch_all [OF assms])
qed

lemma fetch_all_Nil_iff:
  assumes "distinct (map fst symbols)"
  shows "fetch_all yf symbols = [] \<longleftrightarrow> filter (retrieved yf) symbols = []"
proof -
  have "fetch_all yf symbols = [] \<longleftrightarrow> map fst (fetch_all yf symbols) = []" by simp
  also have "\<dots> \<longleftrightarrow> filter (retrieved yf) symbols = []"
    by (simp add: keys_fetch_all [OF assms])
  finally show ?thesis .
qed

lemma distinct_get_symbols: "distinct (map fst get_symbols)"
  by (simp add: get_symbols_def)

text \<open>
  Claim C9. For a registry with distinct names, \<open>download_data\<close> returns \<open>None\<close>
  exactly when no symbol was retrieved, and otherwise a frame whose columns are the
  retrieved symbols, in registry order; the fallback of \<open>get_data\<close> returns the frame of
  the retrieved symbols of the first round of requests, or of the second round when the
  first retrieved nothing, which is the frame without columns when both retrieve nothing.
\<close>

theorem partial_download_succeeds:
  assumes "distinct (map fst symbols)"
  shows "(download_data yf (Some symbols) = None \<longleftrightarrow> filter (retrieved yf) symbols = []) \<and>
         (\<forall>df. download_data yf (Some symbols) = Some df \<longrightarrow>
                column_names df = map fst (filter (retrieved yf) symbols)) \<and>
         column_names (fst (get_data_fallback yf1 yf2)) =
           (if filter (retrieved yf1) get_symbols \<noteq> [] then map fst (filter (retrieved yf1) get_symbols)
            else map fst (filter (retrieved yf2) get_symbols))"
proof (intro conjI allI impI)
  show "download_data yf (Some symbols) = None \<longleftrightarrow> filter (retrieved yf) symbols = []"
    using fetch_all_Nil_iff [OF assms, of yf] by (simp add: download_data_def Let_def)
next
  fix df assume "download_data yf (Some symbols) = Some df"
  then have "df = fill_gaps (merge_frames (fetch_all yf symbols))"
    by (simp add: download_data_def Let_def split: if_splits)
  then show "column_names df = map fst (filter (retrieved yf) symbols)"
    by (simp only: column_names_fetched [OF assms])
next
  note d = distinct_get_symbols
  show "column_names (fst (get_data_fallback yf1 yf2)) =
           (if filter (retrieved yf1) get_symbols \<noteq> [] then map fst (filter (retrieved yf1) get_symbols)
            else map fst (filter (retrieved yf2) get_symbols))"
  proof (cases "filter (retrieved yf1) get_symbols = []")
    case True
    then have "download_data yf1 (Some get_symbols) = None"
      using fetch_all_Nil_iff [OF d, of yf1] by (simp add: download_data_def Let_def)
    then show ?thesis
      using True by (simp add: get_data_fallback_def Let_def column_names_fetched [OF d])
  next
    case False
    then have "download_data yf1 (Some get_symbols) = Some (fill_gaps (merge_frames (fetch_all yf1 get_symbols)))"
      using fetch_all_Nil_iff [OF d, of yf1] by (simp add: download_data_def Let_def)
    then show ?thesis
      using False by (simp add: get_data_fallback_def Let_def column_names_fetched [OF d])
  qed
qed

lemma retrieved_example:
  "filter (retrieved example_provider) get_symbols = [(''Gold'', ''GC=F''), (''Oil'', ''CL=F'')]"
  by (simp add: get_symbols_def retrieved_def example_provider_def is_empty_def)

lemma retrieved_failing: "filter (retrieved failing_provider) get_symbols = []"
  by (simp add: retrieved_def failing_provider_def)

theorem partial_download_succeeds_witness:
  "distinct (map fst get_symbols) \<and>
   filter (retrieved example_provider) get_symbols = [(''Gold'', ''GC=F''), (''Oil'', ''CL=F'')] \<and>
   (\<exists>df. download_data example_provider (Some get_symbols) = Some df \<and>
         column_names df = [''Gold'', ''Oil'']) \<and>
   download_data failing_provider (Some get_symbols) = None \<and>
   column_names (fst (get_data_fallback failing_provider example_provider)) = [''Gold'', ''Oil''] \<and>
   column_names (fst (get_data_fallback failing_provider failing_provider)) = []"
proof -
  note d = distinct_get_symbols
  note ex = partial_download_succeeds [OF d, of example_provider failing_provider example_provider]
  note fl = partial_download_succeeds [OF d, of failing_provider failing_provider failing_provider]
  from ex [THEN conjunct1] have "download_data example_provider (Some get_symbols) \<noteq> None"
    by (simp add: retrieved_example)
  then obtain df where df: "download_data example_provider (Some get_symbols) = Some df"
    by blast
  with ex [THEN conjunct2, THEN conjunct1] have "column_names df = [''Gold'', ''Oil'']"
    by (simp add: retrieved_example)
  with df have a: "\<exists>df. download_data example_provider (Some get_symbols) = Some df \<and>
         column_names df = [''Gold'', ''Oil'']"
    by blast
  from fl [THEN conjunct1] have b: "download_data failing_provider (Some get_symbols) = None"
    by (simp add: retrieved_failing)
  from ex [THEN conjunct2, THEN conjunct2]
  have c: "column_names (fst (get_data_fallback failing_provider example_provider)) = [''Gold'', ''Oil'']"
    by (simp add: retrieved_failing retrieved_example)
  from fl [THEN conjunct2, THEN conjunct2]
  have e: "column_names (fst (get_data_fallback failing_provider failing_provider)) = []"
    by (simp add: retrieved_failing)
  from d retrieved_example a b c e show ?thesis by (intro conjI)
qed

end
